theory Spec2Isabelle
  imports Main
begin

section \<open>Chronicle: the commit orchestration engine of \<^verbatim>\<open>src/extension.ts\<close>\<close>

text \<open>
  The source file holds two variants of the extension: the earlier one (lines 1-157, no AI
  client; its definitions carry the suffix \<open>_legacy\<close> here) and the AI-enabled one
  (lines 158-420). Both are embedded, function by function.

  JavaScript strings are modelled as HOL strings: one \<^typ>\<open>char\<close> stands for one UTF-16
  code unit below 256, so \<open>length\<close> is the JavaScript \<^verbatim>\<open>.length\<close> on such strings.
\<close>

subsection \<open>The JavaScript string operations the source calls\<close>

definition newline :: char where
  "newline = CHR 0x0A"

text \<open>The white space and line terminators that \<^verbatim>\<open>String.prototype.trim\<close> strips
  (tab, LF, VT, FF, CR, space, no-break space).\<close>

definition isWhiteSpace :: "char \<Rightarrow> bool" where
  "isWhiteSpace c = (c \<in> set [CHR 0x09, CHR 0x0A, CHR 0x0B, CHR 0x0C, CHR 0x0D, CHR 0x20, CHR 0xA0])"

definition trim :: "string \<Rightarrow> string" where
  "trim s = rev (dropWhile isWhiteSpace (rev (dropWhile isWhiteSpace s)))"

text \<open>\<^verbatim>\<open>s.split('\n')\<close>: never the empty array; the empty string gives one empty piece.\<close>

fun split_nl :: "string \<Rightarrow> string list" where
  "split_nl [] = [[]]"
| "split_nl (c # cs) =
     (if c = newline then [] # split_nl cs
      else (case split_nl cs of
              piece # pieces \<Rightarrow> (c # piece) # pieces
            | [] \<Rightarrow> [[c]]))"

definition startsWith :: "string \<Rightarrow> string \<Rightarrow> bool" where
  "startsWith s p = (take (length p) s = p)"

definition endsWith :: "string \<Rightarrow> string \<Rightarrow> bool" where
  "endsWith s p = startsWith (rev s) (rev p)"

fun includes_js :: "string \<Rightarrow> string \<Rightarrow> bool" where
  "includes_js [] p = (p = [])"
| "includes_js (c # cs) p = (startsWith (c # cs) p \<or> includes_js cs p)"

text \<open>\<^verbatim>\<open>toLowerCase\<close> on code units below 256: A-Z and the Latin-1 capitals
  (0xC0-0xDE without the multiplication sign 0xD7) move up by 32.\<close>

definition lowerChar :: "char \<Rightarrow> char" where
  "lowerChar c =
     (let n = (of_char c :: nat) in
      if (65 \<le> n \<and> n \<le> 90) \<or> (192 \<le> n \<and> n \<le> 222 \<and> n \<noteq> 215)
      then char_of (n + 32) else c)"

definition toLowerCase :: "string \<Rightarrow> string" where
  "toLowerCase s = map lowerChar s"

text \<open>Template-literal interpolation of a non-negative integer: its decimal digits.\<close>

definition digit :: "nat \<Rightarrow> char" where
  "digit d = ''0123456789'' ! d"

function decimal :: "nat \<Rightarrow> string" where
  "decimal n = (if n < 10 then [digit n] else decimal (n div 10) @ [digit (n mod 10)])"
  by pat_completeness auto
termination
  by (relation "measure id") auto

declare decimal.simps [simp del]

text \<open>\<^verbatim>\<open>path.basename\<close> of Node (POSIX flavour): trailing separators are dropped, then
  everything up to the last separator.\<close>

definition basename :: "string \<Rightarrow> string" where
  "basename p =
     rev (takeWhile (\<lambda>c. c \<noteq> CHR ''/'') (dropWhile (\<lambda>c. c = CHR ''/'') (rev p)))"

text \<open>\<^verbatim>\<open>stdout.trim().split('\n').filter(f => f)\<close>, the idiom of every name listing.\<close>

definition nameList :: "string \<Rightarrow> string list" where
  "nameList out = filter (\<lambda>f. f \<noteq> []) (split_nl (trim out))"

subsection \<open>The AI commit client: \<^verbatim>\<open>callGroqAPI\<close> (lines 287-345)\<close>

text \<open>
  What the HTTPS request can come to. \<open>Response status body\<close> is the \<^verbatim>\<open>end\<close> event;
  the body is classified by what \<^verbatim>\<open>JSON.parse(data)\<close> and the optional chain
  \<^verbatim>\<open>json.choices?.[0]?.message?.content?.trim()\<close> do with it:
  \<open>Throws\<close> when parsing or the chain raises (malformed JSON, \<^verbatim>\<open>null\<close>, a content that is
  neither nullish nor a string), \<open>NoContent\<close> when the chain yields \<^verbatim>\<open>undefined\<close>,
  \<open>Content c\<close> when the content is the string \<open>c\<close>. The key and the diff excerpt only go
  into the request, so \<open>callGroqAPI\<close> is embedded as a function of what the request came
  to; the host's \<open>groq\<close> tells that for a key and an excerpt.
\<close>

datatype groq_body = Throws | NoContent | Content string

datatype groq_reply = RequestError | TimedOut | Response nat groq_body

definition types :: "string list" where
  "types = [''feat'', ''fix'', ''docs'', ''style'', ''refactor'', ''test'', ''chore'']"

definition hasType :: "string \<Rightarrow> bool" where
  "hasType text =
     list_ex (\<lambda>t. startsWith (toLowerCase text) (t @ '':'') \<or> includes_js text (t @ ''('')) types"

definition callGroqAPI :: "groq_reply \<Rightarrow> string option" where
  "callGroqAPI reply =
     (case reply of
        RequestError \<Rightarrow> None
      | TimedOut \<Rightarrow> None
      | Response status body \<Rightarrow>
          if status \<noteq> 200 then None
          else (case body of
                  Throws \<Rightarrow> None
                | _ \<Rightarrow>
                    let text0 = (case body of Content c \<Rightarrow> trim c | _ \<Rightarrow> []);
                        text1 = hd (split_nl text0)
                    in if text1 = [] then Some ''chore: update''
                       else let text2 = (if hasType text1 then text1 else ''chore: '' @ text1);
                                text3 = (if length text2 > 72 then take 69 text2 @ ''...'' else text2)
                            in Some text3))"

text \<open>The pattern the specification asks of a message: a leading \<open>type:\<close> or \<open>type(\<close>, in any
  letter case.\<close>

definition conventional :: "string \<Rightarrow> bool" where
  "conventional m =
     list_ex (\<lambda>t. startsWith (toLowerCase m) (t @ '':'') \<or> startsWith (toLowerCase m) (t @ ''('')) types"

subsection \<open>The host, the git subprocesses and the module state\<close>

text \<open>
  Everything a cycle does to the outside is recorded, in order, as a list of events: the
  git command lines handed to \<^verbatim>\<open>execAsync\<close>, the notifications, the prompts, the accesses
  to the secret store and the request to the completion service.
\<close>

datatype event =
    Exec string
  | ShowInfo string
  | ShowWarning string
  | ShowError string
  | InputBox string
  | SecretGet
  | SetupPrompt
  | KeyBox
  | SecretStore string
  | ConfigUpdate
  | GroqRequest string

text \<open>The answer of the user to \<^verbatim>\<open>'Groq API key not set. Set it now?'\<close>; with \<open>Yes\<close> comes
  what the key input box of \<^verbatim>\<open>setGroqAPIKey\<close> returned.\<close>

datatype setup_answer = Yes "string option" | No | DisableAI | Dismissed

text \<open>
  The host of one cycle. \<open>exec cwd cmd\<close> is what \<^verbatim>\<open>execAsync(cmd, {cwd})\<close> comes to:
  \<open>Inr stdout\<close>, or \<open>Inl message\<close> when the promise rejects with an error of that
  \<^verbatim>\<open>message\<close>. No command line is run twice within one cycle, so a function of the
  command line describes the cycle's subprocesses. \<open>showInputBox v\<close> is the answer to the
  confirmation prompt opened with the initial value \<open>v\<close> (\<open>None\<close> for \<^verbatim>\<open>undefined\<close>).
\<close>

record host =
  exec :: "string \<Rightarrow> string \<Rightarrow> string + string"
  autoPush :: bool
  useAICommitMessages :: bool
  showInputBox :: "string \<Rightarrow> string option"
  groqKey :: "string option"
  setupAnswers :: "setup_answer list"
  groq :: "string \<Rightarrow> string \<Rightarrow> groq_reply"
  getWorkspaceFolder :: "string \<Rightarrow> string option"
  workspaceFolders :: "string list option"
  gitDirExists :: "string \<Rightarrow> bool"

text \<open>The module-level variables (lines 9-12 and 167-170). Times are milliseconds since the
  epoch, as \<^verbatim>\<open>Date.now()\<close> gives them.\<close>

record globals =
  pausedUntil :: "nat option"
  sessionCommits :: nat
  sessionFilesCommitted :: nat
  lastSavedFile :: "string option"

text \<open>JavaScript truthiness of a \<^verbatim>\<open>string | undefined\<close> and of a \<^verbatim>\<open>number | undefined\<close>.\<close>

definition truthy :: "string option \<Rightarrow> bool" where
  "truthy v = (case v of None \<Rightarrow> False | Some s \<Rightarrow> s \<noteq> [])"

definition truthyNum :: "nat option \<Rightarrow> bool" where
  "truthyNum v = (case v of None \<Rightarrow> False | Some n \<Rightarrow> n \<noteq> 0)"

abbreviation git_status :: string where
  "git_status \<equiv> ''git status --porcelain''"

abbreviation git_conflicts :: string where
  "git_conflicts \<equiv> ''git diff --name-only --diff-filter=U''"

abbreviation git_add :: string where
  "git_add \<equiv> ''git add .''"

abbreviation git_push :: string where
  "git_push \<equiv> ''git push''"

abbreviation git_diff_prev :: string where
  "git_diff_prev \<equiv> ''git diff --name-only HEAD~1''"

abbreviation git_names_cached :: string where
  "git_names_cached \<equiv> ''git diff --name-only --cached''"

abbreviation git_diff_cached :: string where
  "git_diff_cached \<equiv> ''git diff --cached''"

definition dquote :: char where
  "dquote = CHR 0x22"

definition backslash :: char where
  "backslash = CHR 0x5C"

text \<open>The commit command line of the AI-enabled variant (line 268): every double quote of
  the message is escaped; and of the earlier variant (line 89): the message as it is.\<close>

definition commitCommand :: "string \<Rightarrow> string" where
  "commitCommand message =
     ''git commit -m '' @ [dquote]
       @ concat (map (\<lambda>c. if c = dquote then [backslash, dquote] else [c]) message)
       @ [dquote]"

definition commitCommand_legacy :: "string \<Rightarrow> string" where
  "commitCommand_legacy message = ''git commit -m '' @ [dquote] @ message @ [dquote]"

text \<open>The book emoji that opens the notifications of the earlier variant, spelled by its
  UTF-8 bytes; no length of a notification is ever taken.\<close>

definition books :: string where
  "books = [CHR 0xF0, CHR 0x9F, CHR 0x93, CHR 0x9A]"

subsection \<open>Message generation\<close>

text \<open>The rule-based fallback, lines 384-387 and the \<^verbatim>\<open>catch\<close> of line 388.\<close>

definition fallbackRules :: "string list \<Rightarrow> string" where
  "fallbackRules files =
     (if files = [] then ''chore: update''
      else if length files = 1 then ''chore: update '' @ basename (hd files)
      else ''chore: update '' @ decimal (length files) @ '' files'')"

definition ruleBasedMessage :: "string + string \<Rightarrow> string" where
  "ruleBasedMessage listing =
     (case listing of
        Inl err \<Rightarrow> ''chore: update''
      | Inr stdout \<Rightarrow> fallbackRules (nameList stdout))"

text \<open>
  \<^verbatim>\<open>generateAICommitMessage\<close> (lines 347-373). It calls itself again after the user chose
  to set a key, whether or not a key was then entered, so it need not return: the recursion
  consumes the scripted answers of the host, and \<open>None\<close> stands for a call that is still
  waiting when the script is over. The result of a call that returns is its events and the
  message (\<open>None\<close> for \<^verbatim>\<open>null\<close>).
\<close>

fun generateAICommitMessage ::
  "host \<Rightarrow> string \<Rightarrow> string option \<Rightarrow> setup_answer list \<Rightarrow> (event list \<times> string option) option"
where
  "generateAICommitMessage h wp apiKey answers =
     (if \<not> truthy apiKey then
        (case answers of
           [] \<Rightarrow> None
         | Yes entered # rest \<Rightarrow>
             (case generateAICommitMessage h wp (if truthy entered then entered else apiKey) rest of
                None \<Rightarrow> None
              | Some (evs, ai) \<Rightarrow>
                  Some ([SecretGet, SetupPrompt, KeyBox]
                        @ (if truthy entered
                           then [SecretStore (the entered), ShowInfo ''Groq API key saved!'']
                           else [])
                        @ evs, ai))
         | DisableAI # rest \<Rightarrow> Some ([SecretGet, SetupPrompt, ConfigUpdate], None)
         | _ # rest \<Rightarrow> Some ([SecretGet, SetupPrompt], None))
      else
        (case exec h wp git_diff_cached of
           Inl err \<Rightarrow> Some ([SecretGet, Exec git_diff_cached], None)
         | Inr diff \<Rightarrow>
             if trim diff = [] then Some ([SecretGet, Exec git_diff_cached], None)
             else Some ([SecretGet, Exec git_diff_cached, GroqRequest (take 1500 diff)],
                        callGroqAPI (groq h (the apiKey) (take 1500 diff)))))"

declare generateAICommitMessage.simps [simp del]

text \<open>\<^verbatim>\<open>generateCommitMessage\<close> of the AI-enabled variant (lines 375-391).\<close>

definition generateCommitMessage :: "host \<Rightarrow> string \<Rightarrow> (event list \<times> string) option" where
  "generateCommitMessage h wp =
     (case (if useAICommitMessages h
            then generateAICommitMessage h wp (groqKey h) (setupAnswers h)
            else Some ([], None)) of
        None \<Rightarrow> None
      | Some (evs, ai) \<Rightarrow>
          if truthy ai then Some (evs, the ai)
          else Some (evs @ [Exec git_names_cached], ruleBasedMessage (exec h wp git_names_cached)))"

text \<open>\<^verbatim>\<open>generateCommitMessage\<close> of the earlier variant (lines 130-151): the content-aware
  taxonomy.\<close>

definition taxonomy_legacy :: "string list \<Rightarrow> string" where
  "taxonomy_legacy files =
     (if files = [] then ''Update code''
      else
        let hasReact = list_ex (\<lambda>f. endsWith f ''.tsx'' \<or> endsWith f ''.jsx'') files;
            hasStyles = list_ex (\<lambda>f. endsWith f ''.css'' \<or> endsWith f ''.scss'') files;
            hasApi = list_ex (\<lambda>f. includes_js f ''api/'' \<or> includes_js f ''server/'') files;
            hasConfig = list_ex (\<lambda>f. endsWith f ''.json'' \<or> endsWith f ''.yml'') files
        in if hasReact \<and> hasStyles then ''Update components and styling''
           else if hasReact then ''Update React components''
           else if hasStyles then ''Update styling''
           else if hasApi then ''Update API endpoints''
           else if hasConfig then ''Update configuration''
           else if length files = 1 then ''Update '' @ basename (hd files)
           else ''Update '' @ decimal (length files) @ '' files'')"

definition generateCommitMessage_legacy :: "host \<Rightarrow> string \<Rightarrow> event list \<times> string" where
  "generateCommitMessage_legacy h wp =
     ([Exec git_names_cached],
      (case exec h wp git_names_cached of
         Inl err \<Rightarrow> ''Update code''
       | Inr stdout \<Rightarrow> taxonomy_legacy (nameList stdout)))"

subsection \<open>The cycle of the AI-enabled variant: \<^verbatim>\<open>autoCommitAndPush\<close> (lines 242-284)\<close>

text \<open>
  The function is one \<^verbatim>\<open>try\<close> block; it is embedded stage by stage, last stage first,
  each stage taking the events so far. \<open>failed\<close> is the \<^verbatim>\<open>catch\<close> of lines 281-283: every
  rejected subprocess ends the cycle there, with the module state as it is at that point.
\<close>

definition failed :: "event list \<Rightarrow> globals \<Rightarrow> string \<Rightarrow> event list \<times> globals" where
  "failed tr g err = (tr @ [ShowError (''Commit failed: '' @ err)], g)"

definition summary :: "bool \<Rightarrow> nat \<Rightarrow> nat \<Rightarrow> string" where
  "summary push commits files =
     ''Committed'' @ (if push then '' & pushed'' else []) @ ''! Today: ''
       @ decimal commits @ '' commits, '' @ decimal files @ '' files''"

text \<open>Lines 273-280.\<close>

definition reporting :: "host \<Rightarrow> string \<Rightarrow> globals \<Rightarrow> event list \<Rightarrow> event list \<times> globals" where
  "reporting h wp g tr =
     (let g1 = g\<lparr>sessionCommits := sessionCommits g + 1\<rparr> in
      case exec h wp git_diff_prev of
        Inl err \<Rightarrow> failed (tr @ [Exec git_diff_prev]) g1 err
      | Inr stdout \<Rightarrow>
          let files = nameList stdout;
              g2 = g1\<lparr>sessionFilesCommitted := sessionFilesCommitted g1 + length files\<rparr>
          in (tr @ [Exec git_diff_prev,
                    ShowInfo (summary (autoPush h) (sessionCommits g2) (sessionFilesCommitted g2))],
              g2))"

text \<open>Lines 270-271.\<close>

definition pushing :: "host \<Rightarrow> string \<Rightarrow> globals \<Rightarrow> event list \<Rightarrow> event list \<times> globals" where
  "pushing h wp g tr =
     (if autoPush h then
        (case exec h wp git_push of
           Inl err \<Rightarrow> failed (tr @ [Exec git_push]) g err
         | Inr stdout \<Rightarrow> reporting h wp g (tr @ [Exec git_push]))
      else reporting h wp g tr)"

text \<open>Line 268.\<close>

definition committing ::
  "host \<Rightarrow> string \<Rightarrow> globals \<Rightarrow> event list \<Rightarrow> string \<Rightarrow> event list \<times> globals"
where
  "committing h wp g tr message =
     (case exec h wp (commitCommand message) of
        Inl err \<Rightarrow> failed (tr @ [Exec (commitCommand message)]) g err
      | Inr stdout \<Rightarrow> pushing h wp g (tr @ [Exec (commitCommand message)]))"

text \<open>Lines 256-266.\<close>

definition confirming ::
  "host \<Rightarrow> string \<Rightarrow> globals \<Rightarrow> event list \<Rightarrow> string \<Rightarrow> event list \<times> globals"
where
  "confirming h wp g tr message =
     (case showInputBox h message of
        None \<Rightarrow> (tr @ [InputBox message, ShowInfo ''Commit canceled.''], g)
      | Some userMessage \<Rightarrow>
          committing h wp g (tr @ [InputBox message])
            (if userMessage = [] then ''chore: update'' else userMessage))"

text \<open>Lines 253-254.\<close>

definition staging ::
  "host \<Rightarrow> string \<Rightarrow> globals \<Rightarrow> event list \<Rightarrow> (event list \<times> globals) option"
where
  "staging h wp g tr =
     (case exec h wp git_add of
        Inl err \<Rightarrow> Some (failed (tr @ [Exec git_add]) g err)
      | Inr stdout \<Rightarrow>
          (case generateCommitMessage h wp of
             None \<Rightarrow> None
           | Some (evs, message) \<Rightarrow>
               Some (confirming h wp g (tr @ [Exec git_add] @ evs) message)))"

text \<open>Lines 244-251, then the stages above. \<open>None\<close>: the cycle is still waiting.\<close>

definition autoCommitAndPush :: "host \<Rightarrow> string \<Rightarrow> globals \<Rightarrow> (event list \<times> globals) option" where
  "autoCommitAndPush h wp g =
     (case exec h wp git_status of
        Inl err \<Rightarrow> Some (failed [Exec git_status] g err)
      | Inr stdout \<Rightarrow>
          if trim stdout = [] then Some ([Exec git_status], g)
          else
            (case exec h wp git_conflicts of
               Inl err \<Rightarrow> Some (failed [Exec git_status, Exec git_conflicts] g err)
             | Inr conflicts \<Rightarrow>
                 if trim conflicts \<noteq> []
                 then Some ([Exec git_status, Exec git_conflicts,
                             ShowWarning ''Chronicle: Merge conflicts. Skipped.''], g)
                 else staging h wp g [Exec git_status, Exec git_conflicts]))"

subsection \<open>The cycle of the earlier variant: \<^verbatim>\<open>autoCommitAndPush\<close> (lines 63-107)\<close>

text \<open>The \<^verbatim>\<open>catch\<close> of lines 104-106 interpolates the error object itself, which prints as
  \<^verbatim>\<open>Error: \<close> and its message.\<close>

definition failed_legacy :: "event list \<Rightarrow> globals \<Rightarrow> string \<Rightarrow> event list \<times> globals" where
  "failed_legacy tr g err =
     (tr @ [ShowError (books @ '' DevChronicle: Commit failed - Error: '' @ err)], g)"

definition summary_legacy :: "nat \<Rightarrow> nat \<Rightarrow> string" where
  "summary_legacy commits files =
     books @ '' DevChronicle: Committed & pushed! Commits today: '' @ decimal commits
       @ '', Files: '' @ decimal files"

text \<open>Lines 94-102.\<close>

definition reporting_legacy ::
  "host \<Rightarrow> string \<Rightarrow> globals \<Rightarrow> event list \<Rightarrow> event list \<times> globals"
where
  "reporting_legacy h wp g tr =
     (let g1 = g\<lparr>sessionCommits := sessionCommits g + 1\<rparr> in
      case exec h wp git_diff_prev of
        Inl err \<Rightarrow> failed_legacy (tr @ [Exec git_diff_prev]) g1 err
      | Inr stdout \<Rightarrow>
          let changedFiles = nameList stdout;
              g2 = g1\<lparr>sessionFilesCommitted := sessionFilesCommitted g1 + length changedFiles\<rparr>
          in (tr @ [Exec git_diff_prev,
                    ShowInfo (summary_legacy (sessionCommits g2) (sessionFilesCommitted g2))],
              g2))"

text \<open>Lines 91-92.\<close>

definition pushing_legacy ::
  "host \<Rightarrow> string \<Rightarrow> globals \<Rightarrow> event list \<Rightarrow> event list \<times> globals"
where
  "pushing_legacy h wp g tr =
     (if autoPush h then
        (case exec h wp git_push of
           Inl err \<Rightarrow> failed_legacy (tr @ [Exec git_push]) g err
         | Inr stdout \<Rightarrow> reporting_legacy h wp g (tr @ [Exec git_push]))
      else reporting_legacy h wp g tr)"

text \<open>Lines 88-89: here the staging comes after the confirmation.\<close>

definition committing_legacy ::
  "host \<Rightarrow> string \<Rightarrow> globals \<Rightarrow> event list \<Rightarrow> string \<Rightarrow> event list \<times> globals"
where
  "committing_legacy h wp g tr message =
     (case exec h wp git_add of
        Inl err \<Rightarrow> failed_legacy (tr @ [Exec git_add]) g err
      | Inr added \<Rightarrow>
          (case exec h wp (commitCommand_legacy message) of
             Inl err \<Rightarrow>
               failed_legacy (tr @ [Exec git_add, Exec (commitCommand_legacy message)]) g err
           | Inr stdout \<Rightarrow>
               pushing_legacy h wp g (tr @ [Exec git_add, Exec (commitCommand_legacy message)])))"

text \<open>Lines 76-86.\<close>

definition confirming_legacy ::
  "host \<Rightarrow> string \<Rightarrow> globals \<Rightarrow> event list \<Rightarrow> string \<Rightarrow> event list \<times> globals"
where
  "confirming_legacy h wp g tr message =
     (case showInputBox h message of
        None \<Rightarrow>
          (tr @ [InputBox message, ShowInfo (books @ '' DevChronicle: Commit canceled.'')], g)
      | Some userMessage \<Rightarrow> committing_legacy h wp g (tr @ [InputBox message]) userMessage)"

text \<open>Lines 65-74, then the stages above.\<close>

definition autoCommitAndPush_legacy :: "host \<Rightarrow> string \<Rightarrow> globals \<Rightarrow> event list \<times> globals" where
  "autoCommitAndPush_legacy h wp g =
     (case exec h wp git_status of
        Inl err \<Rightarrow> failed_legacy [Exec git_status] g err
      | Inr stdout \<Rightarrow>
          if trim stdout = [] then ([Exec git_status], g)
          else
            (case exec h wp git_conflicts of
               Inl err \<Rightarrow> failed_legacy [Exec git_status, Exec git_conflicts] g err
             | Inr conflicts \<Rightarrow>
                 if trim conflicts \<noteq> []
                 then ([Exec git_status, Exec git_conflicts,
                        ShowWarning (books @ '' DevChronicle: Merge conflicts detected. Auto-commit skipped.'')],
                       g)
                 else
                   (case generateCommitMessage_legacy h wp of
                      (evs, message) \<Rightarrow>
                        confirming_legacy h wp g
                          ([Exec git_status, Exec git_conflicts] @ evs) message)))"

subsection \<open>Triggers and the suppression window\<close>

text \<open>\<^verbatim>\<open>pausedUntil && Date.now() < pausedUntil\<close> (lines 49 and 229).\<close>

definition paused :: "nat \<Rightarrow> globals \<Rightarrow> bool" where
  "paused now g = (truthyNum (pausedUntil g) \<and> (case pausedUntil g of None \<Rightarrow> False | Some p \<Rightarrow> now < p))"

text \<open>What a trigger led to: no cycle (with the notifications the handler showed itself),
  a call of \<^verbatim>\<open>autoCommitAndPush\<close> on a workspace path with the events of that cycle, or
  an uncaught \<^verbatim>\<open>TypeError\<close> of the handler.\<close>

datatype outcome = NoCycle "event list" | Cycle string "event list" | Raised

definition isGitRepository :: "host \<Rightarrow> string \<Rightarrow> bool" where
  "isGitRepository h p = gitDirExists h p"

text \<open>\<^verbatim>\<open>handleFileSwitch\<close> of the AI-enabled variant (lines 228-240), on the file name of the
  editor that became active.\<close>

definition handleFileSwitch ::
  "host \<Rightarrow> nat \<Rightarrow> string \<Rightarrow> globals \<Rightarrow> (outcome \<times> globals) option"
where
  "handleFileSwitch h now fileName g =
     (if \<not> truthy (lastSavedFile g) \<or> paused now g then Some (NoCycle [], g)
      else if Some fileName = lastSavedFile g then Some (NoCycle [], g)
      else
        (case getWorkspaceFolder h fileName of
           None \<Rightarrow> Some (NoCycle [], g)
         | Some wp \<Rightarrow>
             if \<not> isGitRepository h wp then Some (NoCycle [], g)
             else
               (case autoCommitAndPush h wp g of
                  None \<Rightarrow> None
                | Some (tr, g') \<Rightarrow> Some (Cycle wp tr, g'\<lparr>lastSavedFile := None\<rparr>))))"

text \<open>\<^verbatim>\<open>handleFileSwitch\<close> of the earlier variant (lines 46-61); the editor may be
  \<^verbatim>\<open>undefined\<close>.\<close>

definition handleFileSwitch_legacy ::
  "host \<Rightarrow> nat \<Rightarrow> string option \<Rightarrow> globals \<Rightarrow> outcome \<times> globals"
where
  "handleFileSwitch_legacy h now editor g =
     (case editor of
        None \<Rightarrow> (NoCycle [], g)
      | Some currentFile \<Rightarrow>
          if \<not> truthy (lastSavedFile g) then (NoCycle [], g)
          else if paused now g then (NoCycle [], g)
          else if Some currentFile = lastSavedFile g then (NoCycle [], g)
          else
            (case getWorkspaceFolder h currentFile of
               None \<Rightarrow> (NoCycle [], g)
             | Some workspacePath \<Rightarrow>
                 if \<not> isGitRepository h workspacePath then (NoCycle [], g)
                 else
                   (case autoCommitAndPush_legacy h workspacePath g of
                      (tr, g') \<Rightarrow> (Cycle workspacePath tr, g'\<lparr>lastSavedFile := None\<rparr>))))"



text \<open>\<^verbatim>\<open>pauseAutoCommit\<close> and \<^verbatim>\<open>resumeAutoCommit\<close> (lines 406-414).\<close>

definition pauseAutoCommit :: "nat \<Rightarrow> globals \<Rightarrow> event list \<times> globals" where
  "pauseAutoCommit now g =
     ([ShowInfo ''Auto-commit paused for 1 hour.''], g\<lparr>pausedUntil := Some (now + 3600000)\<rparr>)"


subsection \<open>Vocabulary of the properties\<close>

text \<open>Some subprocess whose command line starts with the given words was started; was
  started and rejected with the given diagnostic; was started and resolved.\<close>

definition invoked :: "string \<Rightarrow> event list \<Rightarrow> bool" where
  "invoked prefix tr = list_ex (\<lambda>e. case e of Exec c \<Rightarrow> startsWith c prefix | _ \<Rightarrow> False) tr"

definition failedWith :: "host \<Rightarrow> string \<Rightarrow> string \<Rightarrow> string \<Rightarrow> event list \<Rightarrow> bool" where
  "failedWith h wp prefix err tr =
     list_ex (\<lambda>e. case e of Exec c \<Rightarrow> startsWith c prefix \<and> exec h wp c = Inl err | _ \<Rightarrow> False) tr"

definition succeededIn :: "host \<Rightarrow> string \<Rightarrow> string \<Rightarrow> event list \<Rightarrow> bool" where
  "succeededIn h wp prefix tr =
     list_ex (\<lambda>e. case e of Exec c \<Rightarrow> startsWith c prefix \<and> isl (exec h wp c) = False | _ \<Rightarrow> False) tr"

text \<open>An event that leaves the index alone: anything but a subprocess, and of the
  subprocesses the two listings of the staged changes.\<close>

definition readOnly :: "event \<Rightarrow> bool" where
  "readOnly e = (case e of Exec c \<Rightarrow> c = git_diff_cached \<or> c = git_names_cached | _ \<Rightarrow> True)"

text \<open>The reasons for which an active-file change starts no cycle: no pending save, the
  suppression window, a switch to the saved file itself, no workspace folder for the file,
  a folder that is no git repository.\<close>

definition rejected :: "host \<Rightarrow> nat \<Rightarrow> string \<Rightarrow> globals \<Rightarrow> bool" where
  "rejected h now fileName g =
     (truthy (lastSavedFile g) = False \<or> paused now g \<or> lastSavedFile g = Some fileName
      \<or> (case getWorkspaceFolder h fileName of
            None \<Rightarrow> True
          | Some wp \<Rightarrow> isGitRepository h wp = False))"

text \<open>What \<^verbatim>\<open>git diff --name-only\<close> prints for a list of paths, one path a line; and the
  paths that come back from it as they are: not empty, free of line feeds, and with no
  white space at either end.\<close>

definition listing :: "string list \<Rightarrow> string" where
  "listing names = concat (map (\<lambda>f. f @ [newline]) names)"

definition plainName :: "string \<Rightarrow> bool" where
  "plainName f =
     (f \<noteq> [] \<and> newline \<notin> set f \<and> isWhiteSpace (hd f) = False \<and> isWhiteSpace (last f) = False)"

text \<open>The summary of a completed cycle is among the events: an information message that
  begins as the summaries of lines 280 and 102 do.\<close>

definition summaryShown :: "event list \<Rightarrow> bool" where
  "summaryShown tr =
     list_ex (\<lambda>e. case e of
                     ShowInfo s \<Rightarrow> startsWith s ''Committed''
                                   \<or> startsWith s (books @ '' DevChronicle: Committed'')
                   | _ \<Rightarrow> False) tr"

subsection \<open>Scenarios\<close>

definition g0 :: globals where
  "g0 = \<lparr>pausedUntil = None, sessionCommits = 0, sessionFilesCommitted = 0, lastSavedFile = None\<rparr>"

text \<open>A host with one workspace folder \<^verbatim>\<open>/repo\<close> that is a git repository, AI messages
  switched off, push switched on, and a user who accepts every proposed message as it is;
  \<open>run\<close> answers the git command lines.\<close>

definition repoHost :: "(string \<Rightarrow> string + string) \<Rightarrow> host" where
  "repoHost run =
     \<lparr>exec = (\<lambda>cwd. run), autoPush = True, useAICommitMessages = False,
      showInputBox = (\<lambda>v. Some v), groqKey = None, setupAnswers = [],
      groq = (\<lambda>k d. TimedOut), getWorkspaceFolder = (\<lambda>f. Some ''/repo''),
      workspaceFolders = Some [''/repo''], gitDirExists = (\<lambda>p. True)\<rparr>"

text \<open>One modified file \<^verbatim>\<open>a.ts\<close>, and every command succeeds.\<close>

definition oneFileRepo :: "string \<Rightarrow> string + string" where
  "oneFileRepo cmd =
     (if cmd = git_status then Inr ('' M a.ts'' @ [newline])
      else if cmd = git_names_cached then Inr (''a.ts'' @ [newline])
      else if cmd = git_diff_prev then Inr (''a.ts'' @ [newline])
      else Inr [])"

text \<open>An unmerged file \<^verbatim>\<open>a.ts\<close>.\<close>

definition conflictRepo :: "string \<Rightarrow> string + string" where
  "conflictRepo cmd =
     (if cmd = git_status then Inr (''UU a.ts'' @ [newline])
      else if cmd = git_conflicts then Inr (''a.ts'' @ [newline])
      else Inr [])"

text \<open>The commit of the cycle is the first of the repository: \<^verbatim>\<open>HEAD~1\<close> names nothing and
  the diff against it exits with an error.\<close>

definition firstCommitRepo :: "string \<Rightarrow> string + string" where
  "firstCommitRepo cmd =
     (if cmd = git_diff_prev then Inl ''Command failed: git diff --name-only HEAD~1''
      else oneFileRepo cmd)"

definition firstCommitEvents :: "event list" where
  "firstCommitEvents =
     [Exec git_status, Exec git_conflicts, Exec git_add, Exec git_names_cached,
      InputBox ''chore: update a.ts'', Exec (commitCommand ''chore: update a.ts''),
      Exec git_push, Exec git_diff_prev,
      ShowError ''Commit failed: Command failed: git diff --name-only HEAD~1'']"

text \<open>A modified component \<^verbatim>\<open>src/App.tsx\<close> and nothing staged by hand: the listing of the
  staged names is empty as long as \<^verbatim>\<open>git add .\<close> has not run.\<close>

definition unstagedRepo :: "string \<Rightarrow> string + string" where
  "unstagedRepo cmd =
     (if cmd = git_status then Inr ('' M src/App.tsx'' @ [newline])
      else if cmd = git_diff_prev then Inr (''src/App.tsx'' @ [newline])
      else Inr [])"

text \<open>The diagnostic of a subprocess that could not be started, once from the push and
  once from the commit.\<close>

definition pushFailRepo :: "string \<Rightarrow> string + string" where
  "pushFailRepo cmd = (if cmd = git_push then Inl ''spawn /bin/sh ENOENT'' else oneFileRepo cmd)"

definition commitFailRepo :: "string \<Rightarrow> string + string" where
  "commitFailRepo cmd =
     (if startsWith cmd ''git commit'' then Inl ''spawn /bin/sh ENOENT'' else oneFileRepo cmd)"


text \<open>Git refuses a commit whose message is empty.\<close>

definition emptyMessageRepo :: "string \<Rightarrow> string + string" where
  "emptyMessageRepo cmd =
     (if cmd = commitCommand_legacy [] then Inl ''Aborting commit due to empty commit message.''
      else oneFileRepo cmd)"

text \<open>A user who confirms with the text emptied, and one who cancels.\<close>

definition emptyTextHost :: "(string \<Rightarrow> string + string) \<Rightarrow> host" where
  "emptyTextHost run = (repoHost run)\<lparr>showInputBox := (\<lambda>v. Some [])\<rparr>"

definition cancelHost :: "(string \<Rightarrow> string + string) \<Rightarrow> host" where
  "cancelHost run = (repoHost run)\<lparr>showInputBox := (\<lambda>v. None)\<rparr>"

text \<open>A save of \<^verbatim>\<open>/repo/a.ts\<close> is pending; and the same after the pause command at the
  time 0.\<close>

definition savedState :: globals where
  "savedState = g0\<lparr>lastSavedFile := Some ''/repo/a.ts''\<rparr>"

definition pausedState :: globals where
  "pausedState = snd (pauseAutoCommit 0 savedState)"

text \<open>The first commit of a repository as the earlier variant goes through it.\<close>

definition firstCommitEvents_legacy :: "event list" where
  "firstCommitEvents_legacy =
     [Exec git_status, Exec git_conflicts, Exec git_names_cached, InputBox ''Update a.ts'',
      Exec git_add, Exec (commitCommand_legacy ''Update a.ts''), Exec git_push,
      Exec git_diff_prev,
      ShowError (books @ '' DevChronicle: Commit failed - Error: ''
                 @ ''Command failed: git diff --name-only HEAD~1'')]"

text \<open>Three staged files, with a staged diff to send to the model; one staged file in a
  directory; and a name listing whose subprocess cannot be started.\<close>

definition threeFilesRepo :: "string \<Rightarrow> string + string" where
  "threeFilesRepo cmd =
     (if cmd = git_names_cached then Inr (listing [''a.ts'', ''src/b.ts'', ''c.css''])
      else if cmd = git_diff_cached then Inr ''diff --git a/a.ts b/a.ts''
      else oneFileRepo cmd)"

definition appRepo :: "string \<Rightarrow> string + string" where
  "appRepo cmd =
     (if cmd = git_names_cached then Inr (listing [''src/app.ts'']) else oneFileRepo cmd)"

definition namesFailRepo :: "string \<Rightarrow> string + string" where
  "namesFailRepo cmd =
     (if cmd = git_names_cached then Inl ''spawn /bin/sh ENOENT'' else oneFileRepo cmd)"

text \<open>The host with AI messages switched on and a key stored; its request to the model
  times out, as every request of \<open>repoHost\<close> does.\<close>

definition aiHost :: "(string \<Rightarrow> string + string) \<Rightarrow> host" where
  "aiHost run = (repoHost run)\<lparr>useAICommitMessages := True, groqKey := Some ''gsk_key''\<rparr>"

section \<open>Properties\<close>

subsection \<open>Evaluation and small facts\<close>

lemmas stage_defs = autoCommitAndPush_def staging_def confirming_def committing_def pushing_def
  reporting_def failed_def

lemmas stage_defs_legacy = autoCommitAndPush_legacy_def confirming_legacy_def
  committing_legacy_def pushing_legacy_def reporting_legacy_def failed_legacy_def
  generateCommitMessage_legacy_def

lemmas fallback_defs = generateCommitMessage_def ruleBasedMessage_def fallbackRules_def
  summary_def taxonomy_legacy_def summary_legacy_def

lemmas js_defs = trim_def isWhiteSpace_def newline_def nameList_def startsWith_def endsWith_def
  basename_def truthy_def

lemmas scenario_defs = repoHost_def emptyTextHost_def cancelHost_def oneFileRepo_def
  conflictRepo_def firstCommitRepo_def unstagedRepo_def pushFailRepo_def commitFailRepo_def
  emptyMessageRepo_def g0_def savedState_def pausedState_def pauseAutoCommit_def
  commitCommand_def commitCommand_legacy_def dquote_def backslash_def

lemma decimal_digit: "n < 10 \<Longrightarrow> decimal n = [digit n]"
  by (simp add: decimal.simps)

lemmas run_defs = stage_defs stage_defs_legacy fallback_defs js_defs decimal_digit digit_def

lemma failedWith_Nil [simp]: "failedWith h wp p err [] = False"
  by (simp add: failedWith_def)

lemma failedWith_Cons [simp]:
  "failedWith h wp p err (e # tr) =
     ((case e of Exec c \<Rightarrow> startsWith c p \<and> exec h wp c = Inl err | _ \<Rightarrow> False)
      \<or> failedWith h wp p err tr)"
  by (simp add: failedWith_def)

lemma failedWith_append [simp]:
  "failedWith h wp p err (a @ b) = (failedWith h wp p err a \<or> failedWith h wp p err b)"
  by (simp add: failedWith_def)

lemma succeededIn_Nil [simp]: "succeededIn h wp p [] = False"
  by (simp add: succeededIn_def)

lemma succeededIn_Cons [simp]:
  "succeededIn h wp p (e # tr) =
     ((case e of Exec c \<Rightarrow> startsWith c p \<and> isl (exec h wp c) = False | _ \<Rightarrow> False)
      \<or> succeededIn h wp p tr)"
  by (simp add: succeededIn_def)

lemma succeededIn_append [simp]:
  "succeededIn h wp p (a @ b) = (succeededIn h wp p a \<or> succeededIn h wp p b)"
  by (simp add: succeededIn_def)

lemma invoked_Nil [simp]: "invoked p [] = False"
  by (simp add: invoked_def)

lemma invoked_Cons [simp]:
  "invoked p (e # tr) = ((case e of Exec c \<Rightarrow> startsWith c p | _ \<Rightarrow> False) \<or> invoked p tr)"
  by (simp add: invoked_def)

lemma invoked_append [simp]: "invoked p (a @ b) = (invoked p a \<or> invoked p b)"
  by (simp add: invoked_def)

lemma summaryShown_Nil [simp]: "summaryShown [] = False"
  by (simp add: summaryShown_def)

lemma summaryShown_Cons [simp]:
  "summaryShown (e # tr) =
     ((case e of
         ShowInfo s \<Rightarrow> startsWith s ''Committed''
                       \<or> startsWith s (books @ '' DevChronicle: Committed'')
       | _ \<Rightarrow> False) \<or> summaryShown tr)"
  by (simp add: summaryShown_def)

lemma summaryShown_append [simp]: "summaryShown (a @ b) = (summaryShown a \<or> summaryShown b)"
  by (simp add: summaryShown_def)

text \<open>Both summaries are recognised, wherever they stand; the other two information
  messages of a cycle are not.\<close>

lemma summaryShown_summary:
  "ShowInfo (summary push commits files) \<in> set tr \<Longrightarrow> summaryShown tr"
  "ShowInfo (summary_legacy commits files) \<in> set tr \<Longrightarrow> summaryShown tr"
  by (induction tr) (auto simp: summary_def summary_legacy_def startsWith_def)

lemma notices_no_summary [simp]:
  "startsWith ''Groq API key saved!'' ''Committed'' = False"
  "startsWith ''Groq API key saved!'' (books @ '' DevChronicle: Committed'') = False"
  "startsWith ''Commit canceled.'' ''Committed'' = False"
  "startsWith ''Commit canceled.'' (books @ '' DevChronicle: Committed'') = False"
  "startsWith (books @ '' DevChronicle: Commit canceled.'') ''Committed'' = False"
  "startsWith (books @ '' DevChronicle: Commit canceled.'') (books @ '' DevChronicle: Committed'') = False"
  by (simp_all add: startsWith_def books_def)

lemma readOnly_simps [simp]:
  "readOnly (Exec c) = (c = git_diff_cached \<or> c = git_names_cached)"
  "readOnly (ShowInfo s)" "readOnly (ShowWarning s)" "readOnly (ShowError s)"
  "readOnly (InputBox s)" "readOnly SecretGet" "readOnly SetupPrompt" "readOnly KeyBox"
  "readOnly (SecretStore s)" "readOnly ConfigUpdate" "readOnly (GroqRequest s)"
  by (simp_all add: readOnly_def)

lemma readOnly_not_invoked:
  assumes "list_all readOnly evs"
    and "\<not> startsWith git_diff_cached p" and "\<not> startsWith git_names_cached p"
  shows "\<not> invoked p evs"
  using assms by (induction evs) (auto split: event.splits)

lemma readOnly_not_failedWith:
  assumes "list_all readOnly evs"
    and "\<not> startsWith git_diff_cached p" and "\<not> startsWith git_names_cached p"
  shows "\<not> failedWith h wp p err evs"
  using assms by (induction evs) (auto split: event.splits)

lemma readOnly_not_succeededIn:
  assumes "list_all readOnly evs"
    and "\<not> startsWith git_diff_cached p" and "\<not> startsWith git_names_cached p"
  shows "\<not> succeededIn h wp p evs"
  using assms by (induction evs) (auto split: event.splits)

lemma readOnly_quiet [simp]:
  assumes "list_all readOnly evs"
  shows "failedWith h wp git_diff_prev err evs = False"
    and "failedWith h wp ''git push'' err evs = False"
    and "failedWith h wp ''git commit'' err evs = False"
    and "succeededIn h wp ''git commit'' evs = False"
    and "invoked ''git commit'' evs = False"
    and "invoked ''git add'' evs = False"
  using assms
  by (simp_all add: readOnly_not_failedWith readOnly_not_succeededIn readOnly_not_invoked
      startsWith_def)

lemma command_prefixes [simp]:
  "startsWith (commitCommand m) ''git commit''"
  "startsWith (commitCommand_legacy m) ''git commit''"
  "\<not> startsWith (commitCommand m) git_diff_prev"
  "\<not> startsWith (commitCommand_legacy m) git_diff_prev"
  "\<not> startsWith (commitCommand m) ''git push''"
  "\<not> startsWith (commitCommand_legacy m) ''git push''"
  "\<not> startsWith (commitCommand m) ''git add''"
  "\<not> startsWith (commitCommand_legacy m) ''git add''"
  by (simp_all add: commitCommand_def commitCommand_legacy_def startsWith_def)

lemma fixed_command_prefixes [simp]:
  "startsWith git_status p = (take (length p) git_status = p)"
  "startsWith git_conflicts p = (take (length p) git_conflicts = p)"
  "startsWith git_add p = (take (length p) git_add = p)"
  "startsWith git_push p = (take (length p) git_push = p)"
  "startsWith git_diff_prev p = (take (length p) git_diff_prev = p)"
  "startsWith git_names_cached p = (take (length p) git_names_cached = p)"
  "startsWith git_diff_cached p = (take (length p) git_diff_cached = p)"
  by (simp_all add: startsWith_def)


subsection \<open>The AI commit client\<close>

lemma callGroqAPI_length: "callGroqAPI reply = Some m \<Longrightarrow> length m \<le> 72"
  by (auto simp: callGroqAPI_def Let_def split: groq_reply.splits groq_body.splits if_splits)

lemma callGroqAPI_nonempty: "callGroqAPI reply = Some m \<Longrightarrow> m \<noteq> []"
  by (auto simp: callGroqAPI_def Let_def split: groq_reply.splits groq_body.splits if_splits)

lemma callGroqAPI_empty_text:
  "callGroqAPI (Response 200 NoContent) = Some ''chore: update''"
  "trim c = [] \<Longrightarrow> callGroqAPI (Response 200 (Content c)) = Some ''chore: update''"
  by (simp_all add: callGroqAPI_def)

lemma callGroqAPI_unavailable:
  "callGroqAPI RequestError = None"
  "callGroqAPI TimedOut = None"
  "status \<noteq> 200 \<Longrightarrow> callGroqAPI (Response status body) = None"
  "callGroqAPI (Response 200 Throws) = None"
  by (simp_all add: callGroqAPI_def)

text \<open>The returned message begins with a type whenever the first line of the response
  holds no \<open>type(\<close> somewhere inside.\<close>

lemma startsWith_length: "startsWith s p \<Longrightarrow> length p \<le> length s"
  by (metis startsWith_def length_take min.cobounded1)

lemma startsWith_truncated:
  assumes "startsWith s p" and "length p \<le> n"
  shows "startsWith (take n s @ r) p"
proof -
  from assms have "length p \<le> length (take n s)"
    using startsWith_length [OF assms(1)] by simp
  then have "take (length p) (take n s @ r) = take (length p) (take n s)"
    by simp
  also have "\<dots> = take (length p) s"
    using assms(2) by (simp add: min_def)
  also have "\<dots> = p"
    using assms(1) by (simp add: startsWith_def)
  finally show ?thesis
    by (simp add: startsWith_def)
qed

lemma toLowerCase_truncated:
  "toLowerCase (take n s @ r) = take n (toLowerCase s) @ toLowerCase r"
  by (simp add: toLowerCase_def take_map)

lemma conventional_intro:
  "t \<in> set types \<Longrightarrow> startsWith (toLowerCase m) (t @ '':'') \<Longrightarrow> conventional m"
  by (auto simp: conventional_def list_ex_iff)

lemma types_short: "t \<in> set types \<Longrightarrow> length (t @ '':'') \<le> 69"
  by (auto simp: types_def)

lemma conventional_chore: "conventional (''chore: '' @ line)" "conventional (take 69 (''chore: '' @ line) @ r)"
proof -
  have c: "''chore'' \<in> set types"
    by (simp add: types_def)
  have s: "startsWith (toLowerCase (''chore: '' @ line)) ''chore:''"
    by (simp add: startsWith_def toLowerCase_def lowerChar_def)
  from c s show "conventional (''chore: '' @ line)"
    by (intro conventional_intro [of "''chore''"]) simp_all
  from s have "startsWith (toLowerCase (take 69 (''chore: '' @ line) @ r)) ''chore:''"
    unfolding toLowerCase_truncated by (intro startsWith_truncated) simp_all
  with c show "conventional (take 69 (''chore: '' @ line) @ r)"
    by (intro conventional_intro [of "''chore''"]) simp_all
qed

lemma callGroqAPI_conventional:
  assumes reply: "callGroqAPI (Response 200 (Content c)) = Some m"
    and unscoped: "\<not> list_ex (\<lambda>t. includes_js (hd (split_nl (trim c))) (t @ ''('')) types"
  shows "conventional m"
proof -
  define line where "line = hd (split_nl (trim c))"
  show ?thesis
  proof (cases "line = []")
    case True
    with reply have "m = ''chore: update''"
      by (simp add: callGroqAPI_def line_def)
    then show ?thesis
      using conventional_chore(1) [of "''update''"] by simp
  next
    case False
    show ?thesis
    proof (cases "hasType line")
      case True
      with unscoped obtain t where t: "t \<in> set types"
        and lead: "startsWith (toLowerCase line) (t @ '':'')"
        by (auto simp: hasType_def list_ex_iff line_def)
      from reply False True
      have m: "m = (if length line > 72 then take 69 line @ ''...'' else line)"
        by (auto simp: callGroqAPI_def line_def Let_def)
      have "startsWith (toLowerCase m) (t @ '':'')"
      proof (cases "length line > 72")
        case True
        with m have "toLowerCase m = take 69 (toLowerCase line) @ toLowerCase ''...''"
          by (simp add: toLowerCase_truncated)
        with lead types_short [OF t] show ?thesis
          by (simp add: startsWith_truncated)
      next
        case False
        with m lead show ?thesis
          by simp
      qed
      with t show ?thesis
        by (rule conventional_intro)
    next
      case untyped: False
      with reply False
      have "m = (if length (''chore: '' @ line) > 72 then take 69 (''chore: '' @ line) @ ''...''
                 else ''chore: '' @ line)"
        by (auto simp: callGroqAPI_def line_def Let_def)
      then show ?thesis
        using conventional_chore(1) [of line] conventional_chore(2) [of line "''...''"]
        by (simp split: if_splits)
    qed
  qed
qed

text \<open>
  Claim C1. A successful response is to give a message of at most 72 characters that
  begins with a conventional-commit type (\<open>type:\<close> or \<open>type(\<close>, in any letter case). The
  length bound holds (\<open>callGroqAPI_length\<close>), and so does the normalisation of an empty
  text (\<open>callGroqAPI_empty_text\<close>). The type test of line 328, however, accepts \<open>type(\<close>
  anywhere in the line, not only at its start (\<open>callGroqAPI_conventional\<close> is as far as the
  prefix property goes): the response \<^verbatim>\<open>Add test(s) for parser\<close> is returned as it is,
  and it begins with no type.
\<close>

theorem callGroqAPI_scoped_type_anywhere:
  "callGroqAPI (Response 200 (Content ''Add test(s) for parser'')) = Some ''Add test(s) for parser''
   \<and> \<not> conventional ''Add test(s) for parser''"
  by (simp add: callGroqAPI_def trim_def isWhiteSpace_def newline_def hasType_def conventional_def
      types_def startsWith_def toLowerCase_def lowerChar_def)

subsection \<open>The rule-based fallback\<close>

lemma ruleBasedMessage_prefix: "startsWith (ruleBasedMessage r) ''chore: update''"
  by (cases r) (simp_all add: ruleBasedMessage_def fallbackRules_def startsWith_def)

lemma generateCommitMessage_legacy_nonempty: "snd (generateCommitMessage_legacy h wp) \<noteq> []"
  by (simp add: generateCommitMessage_legacy_def taxonomy_legacy_def Let_def split: sum.splits)

text \<open>A listing of plain names is read back as the names it lists.\<close>

lemma split_nl_line: "newline \<notin> set f \<Longrightarrow> split_nl (f @ newline # rest) = f # split_nl rest"
  by (induction f) auto

lemma split_nl_single: "newline \<notin> set f \<Longrightarrow> split_nl f = [f]"
  by (induction f) auto

lemma split_nl_listing:
  "list_all plainName names \<Longrightarrow> newline \<notin> set l \<Longrightarrow> split_nl (listing names @ l) = names @ [l]"
  by (induction names) (simp_all add: listing_def plainName_def split_nl_line split_nl_single)

lemma isWhiteSpace_newline: "isWhiteSpace newline"
  by (simp add: isWhiteSpace_def newline_def)

lemma trim_plain:
  assumes "s \<noteq> []" and "\<not> isWhiteSpace (hd s)" and "t \<noteq> []" and "\<not> isWhiteSpace (last t)"
  shows "trim (s @ t @ [newline]) = s @ t"
proof -
  from assms(1,2) have front: "dropWhile isWhiteSpace (s @ t @ [newline]) = s @ t @ [newline]"
    by (cases s) simp_all
  from assms(3,4) have rear: "dropWhile isWhiteSpace (rev t) = rev t"
    by (cases t rule: rev_cases) simp_all
  from assms(3,4) have "dropWhile isWhiteSpace (rev t @ rev s) = rev t @ rev s"
    by (simp add: dropWhile_append1 [of "last t"] rear)
  then show ?thesis
    by (simp add: trim_def front isWhiteSpace_newline)
qed

lemma trim_listing:
  assumes "names \<noteq> []" and "list_all plainName names"
  shows "trim (listing names) = listing (butlast names) @ last names"
proof (cases "butlast names = []")
  case True
  with assms obtain f where names: "names = [f]"
    by (cases names rule: rev_cases) auto
  with assms(2) have "f \<noteq> []" "\<not> isWhiteSpace (hd f)" "\<not> isWhiteSpace (last f)"
    by (simp_all add: plainName_def)
  then have "trim (f @ [newline]) = f"
  proof -
    assume f: "f \<noteq> []" "\<not> isWhiteSpace (hd f)" "\<not> isWhiteSpace (last f)"
    then have front: "dropWhile isWhiteSpace (f @ [newline]) = f @ [newline]"
      by (cases f) simp_all
    from f have rear: "dropWhile isWhiteSpace (rev f) = rev f"
      by (cases f rule: rev_cases) simp_all
    show ?thesis
      using f by (simp add: trim_def front rear isWhiteSpace_newline)
  qed
  with names show ?thesis
    by (simp add: listing_def)
next
  case False
  from assms(1) have split: "names = butlast names @ [last names]"
    by simp
  from False obtain f rest where front: "butlast names = f # rest"
    by (cases "butlast names") auto
  with split assms(2) have pf: "plainName f" and pl: "plainName (last names)"
    by (metis list.pred_inject(2) list_all_append append_Cons)+
  have l: "listing names = listing (butlast names) @ last names @ [newline]"
    by (subst split) (simp add: listing_def)
  have ne: "listing (butlast names) \<noteq> []" and first: "hd (listing (butlast names)) = hd f"
    using front pf by (simp_all add: listing_def plainName_def)
  from pf pl ne first show ?thesis
    unfolding l by (intro trim_plain) (simp_all add: plainName_def)
qed

lemma nameList_listing: "list_all plainName names \<Longrightarrow> nameList (listing names) = names"
proof (cases "names = []")
  case True
  then show ?thesis
    by (simp add: nameList_def listing_def trim_def)
next
  case False
  assume plain: "list_all plainName names"
  from False have split: "names = butlast names @ [last names]"
    by simp
  with plain have front: "list_all plainName (butlast names)" and l: "plainName (last names)"
    by (metis list_all_append list.pred_inject(2))+
  have "split_nl (trim (listing names)) = butlast names @ [last names]"
    using front l by (simp add: trim_listing [OF False plain] split_nl_listing plainName_def)
  with split have "split_nl (trim (listing names)) = names"
    by simp
  moreover from plain have "filter (\<lambda>f. f \<noteq> []) names = names"
    by (induction names) (simp_all add: plainName_def)
  ultimately show ?thesis
    by (simp add: nameList_def)
qed

text \<open>
  Claim C2, for \<^verbatim>\<open>generateCommitMessage\<close> (lines 375-391). Whenever the function comes to
  its fallback, that is with AI messages switched off, or switched on and
  \<^verbatim>\<open>generateAICommitMessage\<close> returning no usable message, it returns: after the events so
  far it lists the staged names, and its message begins with \<^verbatim>\<open>chore: update\<close>. If the
  listing subprocess fails the message is \<^verbatim>\<open>chore: update\<close>. If it prints \<open>out\<close>, the
  message is \<^verbatim>\<open>chore: update\<close> for no name in \<open>out\<close>, \<^verbatim>\<open>chore: update\<close> and the base name for
  one name, \<^verbatim>\<open>chore: update\<close>, the count and \<^verbatim>\<open>files\<close> for two names or more; and the names
  in \<open>out\<close> are the staged paths whenever git prints them one a line. The generator of the
  earlier variant (lines 130-151) never gives the empty string either.
\<close>

theorem fallback_rules:
  assumes "useAICommitMessages h = False \<and> evs = []
           \<or> useAICommitMessages h
             \<and> generateAICommitMessage h wp (groqKey h) (setupAnswers h) = Some (evs, ai)
             \<and> truthy ai = False"
  shows "(\<exists>m. generateCommitMessage h wp = Some (evs @ [Exec git_names_cached], m)
           \<and> startsWith m ''chore: update''
           \<and> (\<forall>err. exec h wp git_names_cached = Inl err \<longrightarrow> m = ''chore: update'')
           \<and> (\<forall>out. exec h wp git_names_cached = Inr out \<longrightarrow>
                 (nameList out = [] \<longrightarrow> m = ''chore: update'')
               \<and> (\<forall>f. nameList out = [f] \<longrightarrow> m = ''chore: update '' @ basename f)
               \<and> (2 \<le> length (nameList out) \<longrightarrow>
                    m = ''chore: update '' @ decimal (length (nameList out)) @ '' files''))
           \<and> (\<forall>names. list_all plainName names \<and> exec h wp git_names_cached = Inr (listing names)
                 \<longrightarrow> (names = [] \<longrightarrow> m = ''chore: update'')
                   \<and> (\<forall>f. names = [f] \<longrightarrow> m = ''chore: update '' @ basename f)
                   \<and> (2 \<le> length names \<longrightarrow>
                        m = ''chore: update '' @ decimal (length names) @ '' files'')))
         \<and> snd (generateCommitMessage_legacy h wp) \<noteq> []"
proof (rule conjI)
  from assms have gen: "generateCommitMessage h wp
      = Some (evs @ [Exec git_names_cached], ruleBasedMessage (exec h wp git_names_cached))"
    by (auto simp: generateCommitMessage_def truthy_def)
  have rules: "\<And>out. exec h wp git_names_cached = Inr out \<Longrightarrow>
      (nameList out = [] \<longrightarrow> ruleBasedMessage (exec h wp git_names_cached) = ''chore: update'')
      \<and> (\<forall>f. nameList out = [f] \<longrightarrow>
            ruleBasedMessage (exec h wp git_names_cached) = ''chore: update '' @ basename f)
      \<and> (2 \<le> length (nameList out) \<longrightarrow>
            ruleBasedMessage (exec h wp git_names_cached)
              = ''chore: update '' @ decimal (length (nameList out)) @ '' files'')"
    by (auto simp: ruleBasedMessage_def fallbackRules_def)
  have listed: "\<And>names. list_all plainName names \<and> exec h wp git_names_cached = Inr (listing names)
      \<Longrightarrow> (names = [] \<longrightarrow> ruleBasedMessage (exec h wp git_names_cached) = ''chore: update'')
        \<and> (\<forall>f. names = [f] \<longrightarrow>
              ruleBasedMessage (exec h wp git_names_cached) = ''chore: update '' @ basename f)
        \<and> (2 \<le> length names \<longrightarrow>
              ruleBasedMessage (exec h wp git_names_cached)
                = ''chore: update '' @ decimal (length names) @ '' files'')"
    using rules by (auto simp: nameList_listing)
  have failing: "\<And>err. exec h wp git_names_cached = Inl err
      \<Longrightarrow> ruleBasedMessage (exec h wp git_names_cached) = ''chore: update''"
    by (simp add: ruleBasedMessage_def)
  show "\<exists>m. generateCommitMessage h wp = Some (evs @ [Exec git_names_cached], m)
           \<and> startsWith m ''chore: update''
           \<and> (\<forall>err. exec h wp git_names_cached = Inl err \<longrightarrow> m = ''chore: update'')
           \<and> (\<forall>out. exec h wp git_names_cached = Inr out \<longrightarrow>
                 (nameList out = [] \<longrightarrow> m = ''chore: update'')
               \<and> (\<forall>f. nameList out = [f] \<longrightarrow> m = ''chore: update '' @ basename f)
               \<and> (2 \<le> length (nameList out) \<longrightarrow>
                    m = ''chore: update '' @ decimal (length (nameList out)) @ '' files''))
           \<and> (\<forall>names. list_all plainName names \<and> exec h wp git_names_cached = Inr (listing names)
                 \<longrightarrow> (names = [] \<longrightarrow> m = ''chore: update'')
                   \<and> (\<forall>f. names = [f] \<longrightarrow> m = ''chore: update '' @ basename f)
                   \<and> (2 \<le> length names \<longrightarrow>
                        m = ''chore: update '' @ decimal (length names) @ '' files''))"
    using gen ruleBasedMessage_prefix [of "exec h wp git_names_cached"] rules listed failing
    by (intro exI [of _ "ruleBasedMessage (exec h wp git_names_cached)"]) blast
next
  show "snd (generateCommitMessage_legacy h wp) \<noteq> []"
    by (rule generateCommitMessage_legacy_nonempty)
qed

theorem fallback_rules_witness:
  "generateCommitMessage (repoHost threeFilesRepo) ''/repo''
     = Some ([Exec git_names_cached], ''chore: update 3 files'')
   \<and> generateAICommitMessage (aiHost threeFilesRepo) ''/repo''
        (groqKey (aiHost threeFilesRepo)) (setupAnswers (aiHost threeFilesRepo))
     = Some ([SecretGet, Exec git_diff_cached, GroqRequest ''diff --git a/a.ts b/a.ts''], None)
   \<and> generateCommitMessage (aiHost threeFilesRepo) ''/repo''
     = Some ([SecretGet, Exec git_diff_cached, GroqRequest ''diff --git a/a.ts b/a.ts'',
              Exec git_names_cached], ''chore: update 3 files'')
   \<and> generateCommitMessage (repoHost appRepo) ''/repo''
     = Some ([Exec git_names_cached], ''chore: update app.ts'')
   \<and> generateCommitMessage (repoHost namesFailRepo) ''/repo''
     = Some ([Exec git_names_cached], ''chore: update'')"
proof -
  let ?three = "[''a.ts'', ''src/b.ts'', ''c.css'']"
  have plain: "list_all plainName ?three" "list_all plainName [''src/app.ts'']"
    by (simp_all add: plainName_def isWhiteSpace_def newline_def)
  have off: "\<And>run. useAICommitMessages (repoHost run) = False \<and> [] = ([] :: event list)
      \<or> useAICommitMessages (repoHost run)
        \<and> generateAICommitMessage (repoHost run) ''/repo'' (groqKey (repoHost run))
             (setupAnswers (repoHost run)) = Some ([], None)
        \<and> truthy None = False"
    by (simp add: repoHost_def)
  have ai: "generateAICommitMessage (aiHost threeFilesRepo) ''/repo''
        (groqKey (aiHost threeFilesRepo)) (setupAnswers (aiHost threeFilesRepo))
      = Some ([SecretGet, Exec git_diff_cached, GroqRequest ''diff --git a/a.ts b/a.ts''], None)"
    by (simp add: generateAICommitMessage.simps aiHost_def repoHost_def threeFilesRepo_def
        truthy_def trim_def isWhiteSpace_def callGroqAPI_def)
  have on: "useAICommitMessages (aiHost threeFilesRepo) = False
        \<and> [SecretGet, Exec git_diff_cached, GroqRequest ''diff --git a/a.ts b/a.ts''] = []
      \<or> useAICommitMessages (aiHost threeFilesRepo)
        \<and> generateAICommitMessage (aiHost threeFilesRepo) ''/repo''
             (groqKey (aiHost threeFilesRepo)) (setupAnswers (aiHost threeFilesRepo))
           = Some ([SecretGet, Exec git_diff_cached, GroqRequest ''diff --git a/a.ts b/a.ts''], None)
        \<and> truthy None = False"
  proof -
    have "useAICommitMessages (aiHost threeFilesRepo)" and "truthy None = False"
      by (simp_all add: aiHost_def truthy_def)
    with ai show ?thesis
      by blast
  qed
  have three: "exec (repoHost threeFilesRepo) ''/repo'' git_names_cached = Inr (listing ?three)"
    "exec (aiHost threeFilesRepo) ''/repo'' git_names_cached = Inr (listing ?three)"
    by (simp_all add: aiHost_def repoHost_def threeFilesRepo_def)
  have app: "exec (repoHost appRepo) ''/repo'' git_names_cached = Inr (listing [''src/app.ts''])"
    by (simp add: repoHost_def appRepo_def)
  have failing: "exec (repoHost namesFailRepo) ''/repo'' git_names_cached = Inl ''spawn /bin/sh ENOENT''"
    by (simp add: repoHost_def namesFailRepo_def)
  have base: "basename ''src/app.ts'' = ''app.ts''"
    by (simp add: basename_def)
  from fallback_rules [OF off [of threeFilesRepo], THEN conjunct1] obtain m1 where
    g1: "generateCommitMessage (repoHost threeFilesRepo) ''/repo''
           = Some ([] @ [Exec git_names_cached], m1)"
    and l1: "\<forall>names. list_all plainName names
               \<and> exec (repoHost threeFilesRepo) ''/repo'' git_names_cached = Inr (listing names)
             \<longrightarrow> (names = [] \<longrightarrow> m1 = ''chore: update'')
               \<and> (\<forall>f. names = [f] \<longrightarrow> m1 = ''chore: update '' @ basename f)
               \<and> (2 \<le> length names
                    \<longrightarrow> m1 = ''chore: update '' @ decimal (length names) @ '' files'')"
    by (elim exE conjE) (rule that)
  from spec [OF l1, of ?three] plain(1) three(1) have "m1 = ''chore: update 3 files''"
    by (simp add: decimal_digit digit_def)
  with g1 have a: "generateCommitMessage (repoHost threeFilesRepo) ''/repo''
      = Some ([Exec git_names_cached], ''chore: update 3 files'')"
    by simp
  from fallback_rules [OF on, THEN conjunct1] obtain m2 where
    g2: "generateCommitMessage (aiHost threeFilesRepo) ''/repo''
           = Some ([SecretGet, Exec git_diff_cached, GroqRequest ''diff --git a/a.ts b/a.ts'']
                   @ [Exec git_names_cached], m2)"
    and l2: "\<forall>names. list_all plainName names
               \<and> exec (aiHost threeFilesRepo) ''/repo'' git_names_cached = Inr (listing names)
             \<longrightarrow> (names = [] \<longrightarrow> m2 = ''chore: update'')
               \<and> (\<forall>f. names = [f] \<longrightarrow> m2 = ''chore: update '' @ basename f)
               \<and> (2 \<le> length names
                    \<longrightarrow> m2 = ''chore: update '' @ decimal (length names) @ '' files'')"
    by (elim exE conjE) (rule that)
  from spec [OF l2, of ?three] plain(1) three(2) have "m2 = ''chore: update 3 files''"
    by (simp add: decimal_digit digit_def)
  with g2 have b: "generateCommitMessage (aiHost threeFilesRepo) ''/repo''
      = Some ([SecretGet, Exec git_diff_cached, GroqRequest ''diff --git a/a.ts b/a.ts'',
               Exec git_names_cached], ''chore: update 3 files'')"
    by simp
  from fallback_rules [OF off [of appRepo], THEN conjunct1] obtain m3 where
    g3: "generateCommitMessage (repoHost appRepo) ''/repo''
           = Some ([] @ [Exec git_names_cached], m3)"
    and l3: "\<forall>names. list_all plainName names
               \<and> exec (repoHost appRepo) ''/repo'' git_names_cached = Inr (listing names)
             \<longrightarrow> (names = [] \<longrightarrow> m3 = ''chore: update'')
               \<and> (\<forall>f. names = [f] \<longrightarrow> m3 = ''chore: update '' @ basename f)
               \<and> (2 \<le> length names
                    \<longrightarrow> m3 = ''chore: update '' @ decimal (length names) @ '' files'')"
    by (elim exE conjE) (rule that)
  from spec [OF l3, of "[''src/app.ts'']"] plain(2) app have "m3 = ''chore: update app.ts''"
    by (simp add: base)
  with g3 have c: "generateCommitMessage (repoHost appRepo) ''/repo''
      = Some ([Exec git_names_cached], ''chore: update app.ts'')"
    by simp
  from fallback_rules [OF off [of namesFailRepo], THEN conjunct1] obtain m4 where
    g4: "generateCommitMessage (repoHost namesFailRepo) ''/repo''
           = Some ([] @ [Exec git_names_cached], m4)"
    and l4: "\<forall>err. exec (repoHost namesFailRepo) ''/repo'' git_names_cached = Inl err
             \<longrightarrow> m4 = ''chore: update''"
    by (elim exE conjE) (rule that)
  from spec [OF l4, of "''spawn /bin/sh ENOENT''"] failing have "m4 = ''chore: update''"
    by simp
  with g4 have d: "generateCommitMessage (repoHost namesFailRepo) ''/repo''
      = Some ([Exec git_names_cached], ''chore: update'')"
    by simp
  from a ai b c d show ?thesis
    by (intro conjI)
qed

subsection \<open>The message generator\<close>

lemma generateAICommitMessage_readOnly:
  "generateAICommitMessage h wp k answers = Some (evs, ai) \<Longrightarrow> list_all readOnly evs"
proof (induction h wp k answers arbitrary: evs ai rule: generateAICommitMessage.induct)
  case (1 h wp apiKey answers)
  note eq = "1.prems" [unfolded generateAICommitMessage.simps [of h wp apiKey answers]]
  show ?case
  proof (cases "truthy apiKey")
    case True
    with eq show ?thesis
      by (auto split: sum.splits if_splits)
  next
    case False
    show ?thesis
    proof (cases answers)
      case Nil
      with False eq show ?thesis
        by simp
    next
      case (Cons a rest)
      show ?thesis
      proof (cases a)
        case (Yes entered)
        with False Cons eq obtain evs' where
          rec: "generateAICommitMessage h wp (if truthy entered then entered else apiKey) rest = Some (evs', ai)"
          and evs: "evs = [SecretGet, SetupPrompt, KeyBox]
                  @ (if truthy entered then [SecretStore (the entered), ShowInfo ''Groq API key saved!''] else [])
                  @ evs'"
          by (auto split: option.splits)
        from "1.IH" [OF False Cons Yes rec] have "list_all readOnly evs'" .
        with evs show ?thesis
          by simp
      qed (use False Cons eq in auto)
    qed
  qed
qed

lemma generateCommitMessage_readOnly:
  "generateCommitMessage h wp = Some (evs, m) \<Longrightarrow> list_all readOnly evs"
  by (auto simp: generateCommitMessage_def split: if_splits option.splits
      dest!: generateAICommitMessage_readOnly)

text \<open>The message generator shows no summary.\<close>

lemma generateAICommitMessage_no_summary:
  "generateAICommitMessage h wp k answers = Some (evs, ai) \<Longrightarrow> \<not> summaryShown evs"
proof (induction h wp k answers arbitrary: evs ai rule: generateAICommitMessage.induct)
  case (1 h wp apiKey answers)
  note eq = "1.prems" [unfolded generateAICommitMessage.simps [of h wp apiKey answers]]
  show ?case
  proof (cases "truthy apiKey")
    case True
    with eq show ?thesis
      by (auto split: sum.splits if_splits)
  next
    case False
    show ?thesis
    proof (cases answers)
      case Nil
      with False eq show ?thesis
        by simp
    next
      case (Cons a rest)
      show ?thesis
      proof (cases a)
        case (Yes entered)
        with False Cons eq obtain evs' where
          rec: "generateAICommitMessage h wp (if truthy entered then entered else apiKey) rest = Some (evs', ai)"
          and evs: "evs = [SecretGet, SetupPrompt, KeyBox]
                  @ (if truthy entered then [SecretStore (the entered), ShowInfo ''Groq API key saved!''] else [])
                  @ evs'"
          by (auto split: option.splits)
        from "1.IH" [OF False Cons Yes rec] have "\<not> summaryShown evs'" .
        with evs show ?thesis
          by simp
      qed (use False Cons eq in auto)
    qed
  qed
qed

lemma generateCommitMessage_no_summary:
  "generateCommitMessage h wp = Some (evs, m) \<Longrightarrow> \<not> summaryShown evs"
  by (auto simp: generateCommitMessage_def split: if_splits option.splits
      dest!: generateAICommitMessage_no_summary)

lemma generateAICommitMessage_message:
  "generateAICommitMessage h wp k answers = Some (evs, Some m) \<Longrightarrow> m \<noteq> [] \<and> length m \<le> 72"
proof (induction h wp k answers arbitrary: evs rule: generateAICommitMessage.induct)
  case (1 h wp apiKey answers)
  note eq = "1.prems" [unfolded generateAICommitMessage.simps [of h wp apiKey answers]]
  show ?case
  proof (cases "truthy apiKey")
    case True
    with eq show ?thesis
      by (auto split: sum.splits if_splits dest: callGroqAPI_nonempty callGroqAPI_length)
  next
    case False
    show ?thesis
    proof (cases answers)
      case Nil
      with False eq show ?thesis
        by simp
    next
      case (Cons a rest)
      show ?thesis
      proof (cases a)
        case (Yes entered)
        with False Cons eq obtain evs' where
          rec: "generateAICommitMessage h wp (if truthy entered then entered else apiKey) rest = Some (evs', Some m)"
          by (auto split: option.splits)
        from "1.IH" [OF False Cons Yes rec] show ?thesis .
      qed (use False Cons eq in auto)
    qed
  qed
qed

text \<open>Enough answers: the call returns as soon as a key is there or the user stops
  choosing to set one.\<close>

lemma generateAICommitMessage_returns:
  "truthy k \<or> list_ex (\<lambda>a. case a of Yes entered \<Rightarrow> truthy entered | _ \<Rightarrow> True) answers
   \<Longrightarrow> \<exists>r. generateAICommitMessage h wp k answers = Some r"
proof (induction h wp k answers rule: generateAICommitMessage.induct)
  case (1 h wp apiKey answers)
  note unfold = generateAICommitMessage.simps [of h wp apiKey answers]
  show ?case
  proof (cases "truthy apiKey")
    case True
    then show ?thesis
      by (subst unfold) (auto split: sum.splits)
  next
    case False
    with "1.prems" obtain a rest where Cons: "answers = a # rest"
      by (cases answers) auto
    show ?thesis
    proof (cases a)
      case (Yes entered)
      have "truthy (if truthy entered then entered else apiKey)
            \<or> list_ex (\<lambda>a. case a of Yes entered \<Rightarrow> truthy entered | _ \<Rightarrow> True) rest"
        using "1.prems" False Cons Yes by auto
      from "1.IH" [OF False Cons Yes this] obtain r where
        "generateAICommitMessage h wp (if truthy entered then entered else apiKey) rest = Some r" ..
      with False Cons Yes show ?thesis
        by (subst unfold) (cases r, simp)
    qed (use False Cons in \<open>subst unfold, simp\<close>)+
  qed
qed

lemma generateCommitMessage_returns:
  assumes "useAICommitMessages h = False \<or> truthy (groqKey h)
           \<or> list_ex (\<lambda>a. case a of Yes entered \<Rightarrow> truthy entered | _ \<Rightarrow> True) (setupAnswers h)"
  shows "\<exists>r. generateCommitMessage h wp = Some r"
proof (cases "useAICommitMessages h")
  case False
  then show ?thesis
    by (simp add: generateCommitMessage_def truthy_def)
next
  case True
  with assms generateAICommitMessage_returns [of "groqKey h" "setupAnswers h" h wp]
  obtain evs ai where "generateAICommitMessage h wp (groqKey h) (setupAnswers h) = Some (evs, ai)"
    by auto
  with True show ?thesis
    by (simp add: generateCommitMessage_def)
qed

subsection \<open>The shapes of a cycle\<close>

text \<open>Every cycle that returns has one of ten shapes.\<close>

lemma cycle_cases [consumes 1]:
  assumes run: "autoCommitAndPush h wp g = Some (tr, g')"
  obtains
    (status_failed) err where "exec h wp git_status = Inl err"
      and "tr = [Exec git_status, ShowError (''Commit failed: '' @ err)]" and "g' = g"
  | (clean) s where "exec h wp git_status = Inr s" and "trim s = []"
      and "tr = [Exec git_status]" and "g' = g"
  | (conflicts_failed) s err where "exec h wp git_status = Inr s" and "trim s \<noteq> []"
      and "exec h wp git_conflicts = Inl err"
      and "tr = [Exec git_status, Exec git_conflicts, ShowError (''Commit failed: '' @ err)]"
      and "g' = g"
  | (conflicts) s c where "exec h wp git_status = Inr s" and "trim s \<noteq> []"
      and "exec h wp git_conflicts = Inr c" and "trim c \<noteq> []"
      and "tr = [Exec git_status, Exec git_conflicts,
                 ShowWarning ''Chronicle: Merge conflicts. Skipped.'']"
      and "g' = g"
  | (add_failed) s c err where "exec h wp git_status = Inr s" and "trim s \<noteq> []"
      and "exec h wp git_conflicts = Inr c" and "trim c = []"
      and "exec h wp git_add = Inl err"
      and "tr = [Exec git_status, Exec git_conflicts, Exec git_add,
                 ShowError (''Commit failed: '' @ err)]"
      and "g' = g"
  | (canceled) a evs m where "exec h wp git_add = Inr a"
      and "generateCommitMessage h wp = Some (evs, m)"
      and "showInputBox h m = None"
      and "tr = [Exec git_status, Exec git_conflicts, Exec git_add] @ evs
                 @ [InputBox m, ShowInfo ''Commit canceled.'']"
      and "g' = g"
  | (commit_failed) a evs m userMessage message err where "exec h wp git_add = Inr a"
      and "generateCommitMessage h wp = Some (evs, m)"
      and "showInputBox h m = Some userMessage"
      and "message = (if userMessage = [] then ''chore: update'' else userMessage)"
      and "exec h wp (commitCommand message) = Inl err"
      and "tr = [Exec git_status, Exec git_conflicts, Exec git_add] @ evs
                 @ [InputBox m, Exec (commitCommand message),
                    ShowError (''Commit failed: '' @ err)]"
      and "g' = g"
  | (push_failed) a evs m userMessage message committed err where "exec h wp git_add = Inr a"
      and "generateCommitMessage h wp = Some (evs, m)"
      and "showInputBox h m = Some userMessage"
      and "message = (if userMessage = [] then ''chore: update'' else userMessage)"
      and "exec h wp (commitCommand message) = Inr committed"
      and "autoPush h" and "exec h wp git_push = Inl err"
      and "tr = [Exec git_status, Exec git_conflicts, Exec git_add] @ evs
                 @ [InputBox m, Exec (commitCommand message), Exec git_push,
                    ShowError (''Commit failed: '' @ err)]"
      and "g' = g"
  | (stats_failed) a evs m userMessage message committed err where "exec h wp git_add = Inr a"
      and "generateCommitMessage h wp = Some (evs, m)"
      and "showInputBox h m = Some userMessage"
      and "message = (if userMessage = [] then ''chore: update'' else userMessage)"
      and "exec h wp (commitCommand message) = Inr committed"
      and "autoPush h \<Longrightarrow> isl (exec h wp git_push) = False"
      and "exec h wp git_diff_prev = Inl err"
      and "tr = [Exec git_status, Exec git_conflicts, Exec git_add] @ evs
                 @ [InputBox m, Exec (commitCommand message)]
                 @ (if autoPush h then [Exec git_push] else [])
                 @ [Exec git_diff_prev, ShowError (''Commit failed: '' @ err)]"
      and "g' = g\<lparr>sessionCommits := sessionCommits g + 1\<rparr>"
  | (reported) a evs m userMessage message committed names where "exec h wp git_add = Inr a"
      and "generateCommitMessage h wp = Some (evs, m)"
      and "showInputBox h m = Some userMessage"
      and "message = (if userMessage = [] then ''chore: update'' else userMessage)"
      and "exec h wp (commitCommand message) = Inr committed"
      and "autoPush h \<Longrightarrow> isl (exec h wp git_push) = False"
      and "exec h wp git_diff_prev = Inr names"
      and "tr = [Exec git_status, Exec git_conflicts, Exec git_add] @ evs
                 @ [InputBox m, Exec (commitCommand message)]
                 @ (if autoPush h then [Exec git_push] else [])
                 @ [Exec git_diff_prev,
                    ShowInfo (summary (autoPush h) (sessionCommits g + 1)
                                (sessionFilesCommitted g + length (nameList names)))]"
      and "g' = g\<lparr>sessionCommits := sessionCommits g + 1,
                     sessionFilesCommitted := sessionFilesCommitted g + length (nameList names)\<rparr>"
proof (cases "exec h wp git_status")
  case (Inl err)
  with run status_failed [of err] show thesis
    by (simp add: autoCommitAndPush_def failed_def)
next
  case status: (Inr s)
  show thesis
  proof (cases "trim s = []")
    case True
    with run status clean [of s] show thesis
      by (simp add: autoCommitAndPush_def)
  next
    case pending: False
    show thesis
    proof (cases "exec h wp git_conflicts")
      case (Inl err)
      with run status pending conflicts_failed [of s err] show thesis
        by (simp add: autoCommitAndPush_def failed_def)
    next
      case listing: (Inr c)
      show thesis
      proof (cases "trim c = []")
        case False
        with run status pending listing conflicts [of s c] show thesis
          by (simp add: autoCommitAndPush_def)
      next
        case merged: True
        with run status pending listing
        have staged: "staging h wp g [Exec git_status, Exec git_conflicts] = Some (tr, g')"
          by (simp add: autoCommitAndPush_def)
        show thesis
        proof (cases "exec h wp git_add")
          case (Inl err)
          with staged status pending listing merged add_failed [of s c err] show thesis
            by (simp add: staging_def failed_def)
        next
          case added: (Inr a)
          with staged obtain evs m where
            draft: "generateCommitMessage h wp = Some (evs, m)"
            and confirmed: "confirming h wp g ([Exec git_status, Exec git_conflicts, Exec git_add] @ evs) m
                            = (tr, g')"
            by (auto simp: staging_def split: option.splits)
          show thesis
          proof (cases "showInputBox h m")
            case None
            with confirmed added draft canceled [of a evs m] show thesis
              by (simp add: confirming_def)
          next
            case answer: (Some userMessage)
            define message where "message = (if userMessage = [] then ''chore: update'' else userMessage)"
            with confirmed answer have committing:
              "committing h wp g ([Exec git_status, Exec git_conflicts, Exec git_add] @ evs @ [InputBox m])
                 message = (tr, g')"
              by (simp add: confirming_def)
            show thesis
            proof (cases "exec h wp (commitCommand message)")
              case (Inl err)
              with committing added draft answer message_def
                commit_failed [of a evs m userMessage message err] show thesis
                by (simp add: committing_def failed_def)
            next
              case commit: (Inr committed)
              with committing have pushing:
                "pushing h wp g ([Exec git_status, Exec git_conflicts, Exec git_add] @ evs
                   @ [InputBox m, Exec (commitCommand message)]) = (tr, g')"
                by (simp add: committing_def)
              show thesis
              proof (cases "autoPush h \<and> isl (exec h wp git_push)")
                case True
                then obtain err where "autoPush h" and "exec h wp git_push = Inl err"
                  by (cases "exec h wp git_push") auto
                with pushing added draft answer message_def commit
                  push_failed [of a evs m userMessage message committed err] show thesis
                  by (simp add: pushing_def failed_def)
              next
                case False
                then have pushed: "autoPush h \<Longrightarrow> isl (exec h wp git_push) = False"
                  by simp
                with pushing have reporting:
                  "reporting h wp g ([Exec git_status, Exec git_conflicts, Exec git_add] @ evs
                     @ [InputBox m, Exec (commitCommand message)]
                     @ (if autoPush h then [Exec git_push] else [])) = (tr, g')"
                  by (cases "exec h wp git_push") (auto simp: pushing_def)
                show thesis
                proof (cases "exec h wp git_diff_prev")
                  case (Inl err)
                  with reporting added draft answer message_def commit pushed
                    stats_failed [of a evs m userMessage message committed err] show thesis
                    by (simp add: reporting_def failed_def)
                next
                  case (Inr names)
                  with reporting added draft answer message_def commit pushed
                    reported [of a evs m userMessage message committed names] show thesis
                    by (simp add: reporting_def Let_def)
                qed
              qed
            qed
          qed
        qed
      qed
    qed
  qed
qed

lemma cycle_cases_legacy [consumes 1]:
  assumes run: "autoCommitAndPush_legacy h wp g = (tr, g')"
  obtains
    (status_failed) err where "exec h wp git_status = Inl err"
      and "tr = [Exec git_status,
                 ShowError (books @ '' DevChronicle: Commit failed - Error: '' @ err)]"
      and "g' = g"
  | (clean) s where "exec h wp git_status = Inr s" and "trim s = []"
      and "tr = [Exec git_status]" and "g' = g"
  | (conflicts_failed) s err where "exec h wp git_status = Inr s" and "trim s \<noteq> []"
      and "exec h wp git_conflicts = Inl err"
      and "tr = [Exec git_status, Exec git_conflicts,
                 ShowError (books @ '' DevChronicle: Commit failed - Error: '' @ err)]"
      and "g' = g"
  | (conflicts) s c where "exec h wp git_status = Inr s" and "trim s \<noteq> []"
      and "exec h wp git_conflicts = Inr c" and "trim c \<noteq> []"
      and "tr = [Exec git_status, Exec git_conflicts,
                 ShowWarning (books @ '' DevChronicle: Merge conflicts detected. Auto-commit skipped.'')]"
      and "g' = g"
  | (canceled) m where "m = snd (generateCommitMessage_legacy h wp)"
      and "showInputBox h m = None"
      and "tr = [Exec git_status, Exec git_conflicts, Exec git_names_cached, InputBox m,
                 ShowInfo (books @ '' DevChronicle: Commit canceled.'')]"
      and "g' = g"
  | (add_failed) m userMessage err where "m = snd (generateCommitMessage_legacy h wp)"
      and "showInputBox h m = Some userMessage"
      and "exec h wp git_add = Inl err"
      and "tr = [Exec git_status, Exec git_conflicts, Exec git_names_cached, InputBox m,
                 Exec git_add,
                 ShowError (books @ '' DevChronicle: Commit failed - Error: '' @ err)]"
      and "g' = g"
  | (commit_failed) m userMessage a err where "m = snd (generateCommitMessage_legacy h wp)"
      and "showInputBox h m = Some userMessage"
      and "exec h wp git_add = Inr a"
      and "exec h wp (commitCommand_legacy userMessage) = Inl err"
      and "tr = [Exec git_status, Exec git_conflicts, Exec git_names_cached, InputBox m,
                 Exec git_add, Exec (commitCommand_legacy userMessage),
                 ShowError (books @ '' DevChronicle: Commit failed - Error: '' @ err)]"
      and "g' = g"
  | (push_failed) m userMessage a committed err where
          "m = snd (generateCommitMessage_legacy h wp)"
      and "showInputBox h m = Some userMessage"
      and "exec h wp git_add = Inr a"
      and "exec h wp (commitCommand_legacy userMessage) = Inr committed"
      and "autoPush h" and "exec h wp git_push = Inl err"
      and "tr = [Exec git_status, Exec git_conflicts, Exec git_names_cached, InputBox m,
                 Exec git_add, Exec (commitCommand_legacy userMessage), Exec git_push,
                 ShowError (books @ '' DevChronicle: Commit failed - Error: '' @ err)]"
      and "g' = g"
  | (stats_failed) m userMessage a committed err where
          "m = snd (generateCommitMessage_legacy h wp)"
      and "showInputBox h m = Some userMessage"
      and "exec h wp git_add = Inr a"
      and "exec h wp (commitCommand_legacy userMessage) = Inr committed"
      and "autoPush h \<Longrightarrow> isl (exec h wp git_push) = False"
      and "exec h wp git_diff_prev = Inl err"
      and "tr = [Exec git_status, Exec git_conflicts, Exec git_names_cached, InputBox m,
                 Exec git_add, Exec (commitCommand_legacy userMessage)]
                 @ (if autoPush h then [Exec git_push] else [])
                 @ [Exec git_diff_prev,
                    ShowError (books @ '' DevChronicle: Commit failed - Error: '' @ err)]"
      and "g' = g\<lparr>sessionCommits := sessionCommits g + 1\<rparr>"
  | (reported) m userMessage a committed names where
          "m = snd (generateCommitMessage_legacy h wp)"
      and "showInputBox h m = Some userMessage"
      and "exec h wp git_add = Inr a"
      and "exec h wp (commitCommand_legacy userMessage) = Inr committed"
      and "autoPush h \<Longrightarrow> isl (exec h wp git_push) = False"
      and "exec h wp git_diff_prev = Inr names"
      and "tr = [Exec git_status, Exec git_conflicts, Exec git_names_cached, InputBox m,
                 Exec git_add, Exec (commitCommand_legacy userMessage)]
                 @ (if autoPush h then [Exec git_push] else [])
                 @ [Exec git_diff_prev,
                    ShowInfo (summary_legacy (sessionCommits g + 1)
                                (sessionFilesCommitted g + length (nameList names)))]"
      and "g' = g\<lparr>sessionCommits := sessionCommits g + 1,
                     sessionFilesCommitted := sessionFilesCommitted g + length (nameList names)\<rparr>"
proof (cases "exec h wp git_status")
  case (Inl err)
  with run status_failed [of err] show thesis
    by (simp add: autoCommitAndPush_legacy_def failed_legacy_def)
next
  case status: (Inr s)
  show thesis
  proof (cases "trim s = []")
    case True
    with run status clean [of s] show thesis
      by (simp add: autoCommitAndPush_legacy_def)
  next
    case pending: False
    show thesis
    proof (cases "exec h wp git_conflicts")
      case (Inl err)
      with run status pending conflicts_failed [of s err] show thesis
        by (simp add: autoCommitAndPush_legacy_def failed_legacy_def)
    next
      case listing: (Inr c)
      show thesis
      proof (cases "trim c = []")
        case False
        with run status pending listing conflicts [of s c] show thesis
          by (simp add: autoCommitAndPush_legacy_def)
      next
        case merged: True
        define m where "m = snd (generateCommitMessage_legacy h wp)"
        with run status pending listing merged
        have confirmed: "confirming_legacy h wp g
            [Exec git_status, Exec git_conflicts, Exec git_names_cached] m = (tr, g')"
          by (simp add: autoCommitAndPush_legacy_def generateCommitMessage_legacy_def)
        show thesis
        proof (cases "showInputBox h m")
          case None
          with confirmed m_def canceled [of m] show thesis
            by (simp add: confirming_legacy_def)
        next
          case answer: (Some userMessage)
          with confirmed have committing:
            "committing_legacy h wp g
               [Exec git_status, Exec git_conflicts, Exec git_names_cached, InputBox m]
               userMessage = (tr, g')"
            by (simp add: confirming_legacy_def)
          show thesis
          proof (cases "exec h wp git_add")
            case (Inl err)
            with committing m_def answer add_failed [of m userMessage err] show thesis
              by (simp add: committing_legacy_def failed_legacy_def)
          next
            case added: (Inr a)
            show thesis
            proof (cases "exec h wp (commitCommand_legacy userMessage)")
              case (Inl err)
              with committing m_def answer added commit_failed [of m userMessage a err]
              show thesis
                by (simp add: committing_legacy_def failed_legacy_def)
            next
              case commit: (Inr committed)
              with committing added have pushing:
                "pushing_legacy h wp g
                   [Exec git_status, Exec git_conflicts, Exec git_names_cached, InputBox m,
                    Exec git_add, Exec (commitCommand_legacy userMessage)] = (tr, g')"
                by (simp add: committing_legacy_def)
              show thesis
              proof (cases "autoPush h \<and> isl (exec h wp git_push)")
                case True
                then obtain err where "autoPush h" and "exec h wp git_push = Inl err"
                  by (cases "exec h wp git_push") auto
                with pushing m_def answer added commit
                  push_failed [of m userMessage a committed err] show thesis
                  by (simp add: pushing_legacy_def failed_legacy_def)
              next
                case False
                then have pushed: "autoPush h \<Longrightarrow> isl (exec h wp git_push) = False"
                  by simp
                with pushing have reporting:
                  "reporting_legacy h wp g
                     ([Exec git_status, Exec git_conflicts, Exec git_names_cached, InputBox m,
                       Exec git_add, Exec (commitCommand_legacy userMessage)]
                      @ (if autoPush h then [Exec git_push] else [])) = (tr, g')"
                  by (cases "exec h wp git_push") (auto simp: pushing_legacy_def)
                show thesis
                proof (cases "exec h wp git_diff_prev")
                  case (Inl err)
                  with reporting m_def answer added commit pushed
                    stats_failed [of m userMessage a committed err] show thesis
                    by (simp add: reporting_legacy_def failed_legacy_def)
                next
                  case (Inr names)
                  with reporting m_def answer added commit pushed
                    reported [of m userMessage a committed names] show thesis
                    by (simp add: reporting_legacy_def Let_def)
                qed
              qed
            qed
          qed
        qed
      qed
    qed
  qed
qed

subsection \<open>Unresolved conflicts\<close>

text \<open>
  Claim C3. A cycle whose listing of unmerged paths is not empty ends without staging and
  without committing, and with the module state (both counters among it) as it was; this
  holds in both variants, whatever the status query answered. The listing is only asked
  for after the status query reported pending changes, and then the events of the cycle
  are exactly the two queries and the warning.
\<close>

theorem conflicts_abort_cycle:
  assumes "exec h wp git_conflicts = Inr c" and "trim c \<noteq> []"
  shows "(\<exists>tr. autoCommitAndPush h wp g = Some (tr, g)
            \<and> \<not> invoked ''git add'' tr \<and> \<not> invoked ''git commit'' tr
            \<and> (\<forall>s. exec h wp git_status = Inr s \<and> trim s \<noteq> [] \<longrightarrow>
                   tr = [Exec git_status, Exec git_conflicts,
                         ShowWarning ''Chronicle: Merge conflicts. Skipped.'']))
       \<and> (\<exists>tr. autoCommitAndPush_legacy h wp g = (tr, g)
            \<and> \<not> invoked ''git add'' tr \<and> \<not> invoked ''git commit'' tr
            \<and> (\<forall>s. exec h wp git_status = Inr s \<and> trim s \<noteq> [] \<longrightarrow>
                   tr = [Exec git_status, Exec git_conflicts,
                         ShowWarning (books @ '' DevChronicle: Merge conflicts detected. Auto-commit skipped.'')]))"
proof (cases "exec h wp git_status")
  case (Inl err)
  then show ?thesis
    by (simp add: autoCommitAndPush_def autoCommitAndPush_legacy_def failed_def failed_legacy_def)
next
  case (Inr s)
  with assms show ?thesis
    by (simp add: autoCommitAndPush_def autoCommitAndPush_legacy_def)
qed

theorem conflicts_abort_cycle_witness:
  "exec (repoHost conflictRepo) ''/repo'' git_conflicts = Inr (''a.ts'' @ [newline])
   \<and> trim (''a.ts'' @ [newline]) \<noteq> []
   \<and> autoCommitAndPush (repoHost conflictRepo) ''/repo'' g0
       = Some ([Exec git_status, Exec git_conflicts,
                ShowWarning ''Chronicle: Merge conflicts. Skipped.''], g0)
   \<and> fst (autoCommitAndPush_legacy (repoHost conflictRepo) ''/repo'' g0)
       = [Exec git_status, Exec git_conflicts,
          ShowWarning (books @ '' DevChronicle: Merge conflicts detected. Auto-commit skipped.'')]
   \<and> snd (autoCommitAndPush_legacy (repoHost conflictRepo) ''/repo'' g0) = g0"
proof -
  have c: "exec (repoHost conflictRepo) ''/repo'' git_conflicts = Inr (''a.ts'' @ [newline])"
    by (simp add: repoHost_def conflictRepo_def)
  have n: "trim (''a.ts'' @ [newline]) \<noteq> []"
    by (simp add: js_defs)
  have s: "exec (repoHost conflictRepo) ''/repo'' git_status = Inr (''UU a.ts'' @ [newline])"
    by (simp add: repoHost_def conflictRepo_def)
  have t: "trim (''UU a.ts'' @ [newline]) \<noteq> []"
    by (simp add: js_defs)
  from conflicts_abort_cycle [OF c n, of g0] s t c n show ?thesis
    by auto
qed

subsection \<open>Statistics after the commit\<close>

text \<open>
  Claim C4, as the code has it. The diff against \<^verbatim>\<open>HEAD~1\<close> is not guarded. In a cycle
  where it is run and fails, the commit has been made, and the push if pushing is switched
  on; the commit counter has been incremented and the file counter has not; the diff is the
  last subprocess of the cycle, so that nothing takes the commit or the push back; the
  cycle ends in the \<^verbatim>\<open>catch\<close>, its last event the error notification with the diagnostic of
  the diff; and no summary is shown. The events of such a cycle are given in full. Both
  variants.
\<close>

theorem statistics_failure_fails_cycle:
  "(\<forall>tr g'. autoCommitAndPush h wp g = Some (tr, g') \<and> failedWith h wp git_diff_prev err tr \<longrightarrow>
      g' = g\<lparr>sessionCommits := sessionCommits g + 1\<rparr>
      \<and> last tr = ShowError (''Commit failed: '' @ err)
      \<and> succeededIn h wp ''git commit'' tr
      \<and> (autoPush h \<longrightarrow> succeededIn h wp ''git push'' tr)
      \<and> summaryShown tr = False
      \<and> (\<exists>evs m userMessage.
            generateCommitMessage h wp = Some (evs, m) \<and> showInputBox h m = Some userMessage
            \<and> tr = [Exec git_status, Exec git_conflicts, Exec git_add] @ evs
                 @ [InputBox m,
                    Exec (commitCommand (if userMessage = [] then ''chore: update'' else userMessage))]
                 @ (if autoPush h then [Exec git_push] else [])
                 @ [Exec git_diff_prev, ShowError (''Commit failed: '' @ err)]))
   \<and> (\<forall>tr g'. autoCommitAndPush_legacy h wp g = (tr, g') \<and> failedWith h wp git_diff_prev err tr \<longrightarrow>
      g' = g\<lparr>sessionCommits := sessionCommits g + 1\<rparr>
      \<and> last tr = ShowError (books @ '' DevChronicle: Commit failed - Error: '' @ err)
      \<and> succeededIn h wp ''git commit'' tr
      \<and> (autoPush h \<longrightarrow> succeededIn h wp ''git push'' tr)
      \<and> summaryShown tr = False
      \<and> (\<exists>userMessage.
            showInputBox h (snd (generateCommitMessage_legacy h wp)) = Some userMessage
            \<and> tr = [Exec git_status, Exec git_conflicts, Exec git_names_cached,
                    InputBox (snd (generateCommitMessage_legacy h wp)),
                    Exec git_add, Exec (commitCommand_legacy userMessage)]
                 @ (if autoPush h then [Exec git_push] else [])
                 @ [Exec git_diff_prev,
                    ShowError (books @ '' DevChronicle: Commit failed - Error: '' @ err)]))"
proof (rule conjI; intro allI impI; elim conjE)
  fix tr g'
  assume run: "autoCommitAndPush h wp g = Some (tr, g')"
    and stats: "failedWith h wp git_diff_prev err tr"
  from run show "g' = g\<lparr>sessionCommits := sessionCommits g + 1\<rparr>
      \<and> last tr = ShowError (''Commit failed: '' @ err)
      \<and> succeededIn h wp ''git commit'' tr
      \<and> (autoPush h \<longrightarrow> succeededIn h wp ''git push'' tr)
      \<and> summaryShown tr = False
      \<and> (\<exists>evs m userMessage.
            generateCommitMessage h wp = Some (evs, m) \<and> showInputBox h m = Some userMessage
            \<and> tr = [Exec git_status, Exec git_conflicts, Exec git_add] @ evs
                 @ [InputBox m,
                    Exec (commitCommand (if userMessage = [] then ''chore: update'' else userMessage))]
                 @ (if autoPush h then [Exec git_push] else [])
                 @ [Exec git_diff_prev, ShowError (''Commit failed: '' @ err)])"
  proof (cases rule: cycle_cases)
    case (stats_failed a evs m userMessage message committed err')
    from stats_failed(2) have quiet: "list_all readOnly evs" "\<not> summaryShown evs"
      by (rule generateCommitMessage_readOnly, rule generateCommitMessage_no_summary)
    from stats stats_failed(7,8) quiet have same: "err' = err"
      by (auto split: if_splits)
    have shape: "\<exists>evs m userMessage.
            generateCommitMessage h wp = Some (evs, m) \<and> showInputBox h m = Some userMessage
            \<and> tr = [Exec git_status, Exec git_conflicts, Exec git_add] @ evs
                 @ [InputBox m,
                    Exec (commitCommand (if userMessage = [] then ''chore: update'' else userMessage))]
                 @ (if autoPush h then [Exec git_push] else [])
                 @ [Exec git_diff_prev, ShowError (''Commit failed: '' @ err)]"
      using stats_failed(2,3,4,8) same by blast
    from stats_failed quiet same have rest:
      "g' = g\<lparr>sessionCommits := sessionCommits g + 1\<rparr>
       \<and> last tr = ShowError (''Commit failed: '' @ err)
       \<and> succeededIn h wp ''git commit'' tr
       \<and> (autoPush h \<longrightarrow> succeededIn h wp ''git push'' tr)
       \<and> summaryShown tr = False"
      by auto
    with shape show ?thesis
      by blast
  qed (use stats in \<open>auto split: if_splits dest!: generateCommitMessage_readOnly\<close>)
next
  fix tr g'
  assume run: "autoCommitAndPush_legacy h wp g = (tr, g')"
    and stats: "failedWith h wp git_diff_prev err tr"
  from run show "g' = g\<lparr>sessionCommits := sessionCommits g + 1\<rparr>
      \<and> last tr = ShowError (books @ '' DevChronicle: Commit failed - Error: '' @ err)
      \<and> succeededIn h wp ''git commit'' tr
      \<and> (autoPush h \<longrightarrow> succeededIn h wp ''git push'' tr)
      \<and> summaryShown tr = False
      \<and> (\<exists>userMessage.
            showInputBox h (snd (generateCommitMessage_legacy h wp)) = Some userMessage
            \<and> tr = [Exec git_status, Exec git_conflicts, Exec git_names_cached,
                    InputBox (snd (generateCommitMessage_legacy h wp)),
                    Exec git_add, Exec (commitCommand_legacy userMessage)]
                 @ (if autoPush h then [Exec git_push] else [])
                 @ [Exec git_diff_prev,
                    ShowError (books @ '' DevChronicle: Commit failed - Error: '' @ err)])"
  proof (cases rule: cycle_cases_legacy)
    case (stats_failed m userMessage a committed err')
    from stats stats_failed(6,7) have same: "err' = err"
      by (auto split: if_splits)
    have shape: "\<exists>userMessage.
            showInputBox h (snd (generateCommitMessage_legacy h wp)) = Some userMessage
            \<and> tr = [Exec git_status, Exec git_conflicts, Exec git_names_cached,
                    InputBox (snd (generateCommitMessage_legacy h wp)),
                    Exec git_add, Exec (commitCommand_legacy userMessage)]
                 @ (if autoPush h then [Exec git_push] else [])
                 @ [Exec git_diff_prev,
                    ShowError (books @ '' DevChronicle: Commit failed - Error: '' @ err)]"
      using stats_failed(1,2,7) same by blast
    from stats_failed same have rest:
      "g' = g\<lparr>sessionCommits := sessionCommits g + 1\<rparr>
       \<and> last tr = ShowError (books @ '' DevChronicle: Commit failed - Error: '' @ err)
       \<and> succeededIn h wp ''git commit'' tr
       \<and> (autoPush h \<longrightarrow> succeededIn h wp ''git push'' tr)
       \<and> summaryShown tr = False"
      by auto
    with shape show ?thesis
      by blast
  qed (use stats in \<open>auto split: if_splits\<close>)
qed

lemma first_commit_run:
  "autoCommitAndPush (repoHost firstCommitRepo) ''/repo'' g0
     = Some (firstCommitEvents, g0\<lparr>sessionCommits := 1\<rparr>)"
  by (simp add: run_defs scenario_defs firstCommitEvents_def)

lemma first_commit_run_legacy:
  "autoCommitAndPush_legacy (repoHost firstCommitRepo) ''/repo'' g0
     = (firstCommitEvents_legacy, g0\<lparr>sessionCommits := 1\<rparr>)"
  by (simp add: run_defs scenario_defs firstCommitEvents_legacy_def)

theorem statistics_failure_fails_cycle_witness:
  "autoCommitAndPush (repoHost firstCommitRepo) ''/repo'' g0
     = Some (firstCommitEvents, g0\<lparr>sessionCommits := 1\<rparr>)
   \<and> failedWith (repoHost firstCommitRepo) ''/repo'' git_diff_prev
        ''Command failed: git diff --name-only HEAD~1'' firstCommitEvents
   \<and> last firstCommitEvents = ShowError ''Commit failed: Command failed: git diff --name-only HEAD~1''
   \<and> succeededIn (repoHost firstCommitRepo) ''/repo'' ''git commit'' firstCommitEvents
   \<and> autoPush (repoHost firstCommitRepo)
   \<and> succeededIn (repoHost firstCommitRepo) ''/repo'' ''git push'' firstCommitEvents
   \<and> summaryShown firstCommitEvents = False
   \<and> autoCommitAndPush_legacy (repoHost firstCommitRepo) ''/repo'' g0
     = (firstCommitEvents_legacy, g0\<lparr>sessionCommits := 1\<rparr>)
   \<and> failedWith (repoHost firstCommitRepo) ''/repo'' git_diff_prev
        ''Command failed: git diff --name-only HEAD~1'' firstCommitEvents_legacy
   \<and> last firstCommitEvents_legacy
     = ShowError (books @ '' DevChronicle: Commit failed - Error: ''
                  @ ''Command failed: git diff --name-only HEAD~1'')
   \<and> succeededIn (repoHost firstCommitRepo) ''/repo'' ''git commit'' firstCommitEvents_legacy
   \<and> succeededIn (repoHost firstCommitRepo) ''/repo'' ''git push'' firstCommitEvents_legacy
   \<and> summaryShown firstCommitEvents_legacy = False"
proof -
  have stats: "failedWith (repoHost firstCommitRepo) ''/repo'' git_diff_prev
      ''Command failed: git diff --name-only HEAD~1'' firstCommitEvents"
    by (simp add: firstCommitEvents_def repoHost_def firstCommitRepo_def)
  have stats_legacy: "failedWith (repoHost firstCommitRepo) ''/repo'' git_diff_prev
      ''Command failed: git diff --name-only HEAD~1'' firstCommitEvents_legacy"
    by (simp add: firstCommitEvents_legacy_def repoHost_def firstCommitRepo_def)
  have push: "autoPush (repoHost firstCommitRepo)"
    by (simp add: repoHost_def)
  note both = statistics_failure_fails_cycle [of "repoHost firstCommitRepo" "''/repo''" g0
      "''Command failed: git diff --name-only HEAD~1''"]
  note ai = both [THEN conjunct1, THEN spec, THEN spec, THEN mp,
      OF conjI [OF first_commit_run stats]]
  note legacy = both [THEN conjunct2, THEN spec, THEN spec, THEN mp,
      OF conjI [OF first_commit_run_legacy stats_legacy]]
  from ai have a1: "last firstCommitEvents
      = ShowError (''Commit failed: '' @ ''Command failed: git diff --name-only HEAD~1'')"
    by (elim conjE)
  from ai have a2: "succeededIn (repoHost firstCommitRepo) ''/repo'' ''git commit'' firstCommitEvents"
    by (elim conjE)
  from ai have "autoPush (repoHost firstCommitRepo)
      \<longrightarrow> succeededIn (repoHost firstCommitRepo) ''/repo'' ''git push'' firstCommitEvents"
    by (elim conjE)
  from this push
  have a3: "succeededIn (repoHost firstCommitRepo) ''/repo'' ''git push'' firstCommitEvents"
    by (rule mp)
  from ai have a4: "summaryShown firstCommitEvents = False"
    by (elim conjE)
  from legacy have l1: "last firstCommitEvents_legacy
      = ShowError (books @ '' DevChronicle: Commit failed - Error: ''
                   @ ''Command failed: git diff --name-only HEAD~1'')"
    by (elim conjE)
  from legacy
  have l2: "succeededIn (repoHost firstCommitRepo) ''/repo'' ''git commit'' firstCommitEvents_legacy"
    by (elim conjE)
  from legacy have "autoPush (repoHost firstCommitRepo)
      \<longrightarrow> succeededIn (repoHost firstCommitRepo) ''/repo'' ''git push'' firstCommitEvents_legacy"
    by (elim conjE)
  from this push
  have l3: "succeededIn (repoHost firstCommitRepo) ''/repo'' ''git push'' firstCommitEvents_legacy"
    by (rule mp)
  from legacy have l4: "summaryShown firstCommitEvents_legacy = False"
    by (elim conjE)
  from a1 have a1': "last firstCommitEvents
      = ShowError ''Commit failed: Command failed: git diff --name-only HEAD~1''"
    by simp
  from first_commit_run stats a1' a2 push a3 a4 first_commit_run_legacy stats_legacy l1 l2 l3 l4
  show ?thesis
    by (intro conjI)
qed

text \<open>
  Against claim C4 as it is stated: a cycle that makes the first commit of a repository.
  The diff finds no previous commit; the cycle does not treat that as an empty list, it
  shows \<^verbatim>\<open>Commit failed\<close> after the commit and the push went through, and the summary for
  one commit and no files is not among its events.
\<close>

theorem first_commit_counterexample:
  "exec (repoHost firstCommitRepo) ''/repo'' git_diff_prev
     = Inl ''Command failed: git diff --name-only HEAD~1''
   \<and> autoCommitAndPush (repoHost firstCommitRepo) ''/repo'' g0
     = Some ([Exec git_status, Exec git_conflicts, Exec git_add, Exec git_names_cached,
              InputBox ''chore: update a.ts'', Exec (commitCommand ''chore: update a.ts''),
              Exec git_push, Exec git_diff_prev,
              ShowError ''Commit failed: Command failed: git diff --name-only HEAD~1''],
             g0\<lparr>sessionCommits := 1\<rparr>)
   \<and> ShowInfo (summary True 1 0) \<notin> set firstCommitEvents
   \<and> autoCommitAndPush_legacy (repoHost firstCommitRepo) ''/repo'' g0
     = ([Exec git_status, Exec git_conflicts, Exec git_names_cached, InputBox ''Update a.ts'',
         Exec git_add, Exec (commitCommand_legacy ''Update a.ts''), Exec git_push,
         Exec git_diff_prev,
         ShowError (books @ '' DevChronicle: Commit failed - Error: Command failed: git diff --name-only HEAD~1'')],
        g0\<lparr>sessionCommits := 1\<rparr>)"
  by (simp add: run_defs scenario_defs firstCommitEvents_def)

subsection \<open>Staging and drafting\<close>

text \<open>In the AI-enabled variant a cycle that passes the probe stages first: its events
  begin with the two queries and \<^verbatim>\<open>git add .\<close>, and the events of the message generator
  and the prompt follow.\<close>

lemma staging_precedes_drafting:
  assumes "autoCommitAndPush h wp g = Some (tr, g')"
    and "exec h wp git_status = Inr s" and "trim s \<noteq> []"
    and "exec h wp git_conflicts = Inr c" and "trim c = []"
  shows "(\<exists>err. tr = [Exec git_status, Exec git_conflicts, Exec git_add,
                       ShowError (''Commit failed: '' @ err)])
         \<or> (\<exists>evs m rest. generateCommitMessage h wp = Some (evs, m)
               \<and> tr = [Exec git_status, Exec git_conflicts, Exec git_add] @ evs @ InputBox m # rest)"
  using assms by (cases rule: cycle_cases) auto

text \<open>In the earlier variant a cycle that passes the probe drafts first: the listing of
  the staged names and the prompt come before anything is staged.\<close>

lemma drafting_precedes_staging_legacy:
  assumes "autoCommitAndPush_legacy h wp g = (tr, g')"
    and "exec h wp git_status = Inr s" and "trim s \<noteq> []"
    and "exec h wp git_conflicts = Inr c" and "trim c = []"
  shows "take 4 tr = [Exec git_status, Exec git_conflicts, Exec git_names_cached,
                      InputBox (snd (generateCommitMessage_legacy h wp))]"
    and "\<not> invoked ''git add'' (take 4 tr)"
  using assms by (cases rule: cycle_cases_legacy; simp)+

text \<open>
  Claim C5. The message is to be drafted from the staged diff, after \<^verbatim>\<open>git add .\<close>. The
  AI-enabled variant does so (\<open>staging_precedes_drafting\<close>); the earlier variant lists the
  staged names and asks for confirmation before it stages (lines 74-88,
  \<open>drafting_precedes_staging_legacy\<close>). With a modified component and nothing staged by
  hand its listing is empty, the message is \<^verbatim>\<open>Update code\<close>, and \<^verbatim>\<open>git add .\<close> follows
  the prompt.
\<close>

theorem legacy_drafts_before_staging:
  "autoCommitAndPush_legacy (repoHost unstagedRepo) ''/repo'' g0 =
     ([Exec git_status, Exec git_conflicts, Exec git_names_cached, InputBox ''Update code'',
       Exec git_add, Exec (commitCommand_legacy ''Update code''), Exec git_push,
       Exec git_diff_prev, ShowInfo (summary_legacy 1 1)],
      g0\<lparr>sessionCommits := 1, sessionFilesCommitted := 1\<rparr>)"
  by (simp add: run_defs scenario_defs)

subsection \<open>A failing push\<close>






subsection \<open>The suppression window\<close>





subsection \<open>Confirmation\<close>

text \<open>What the two variants do with the answer to the prompt: line 266 puts the default
  message in the place of an empty text, line 86 takes the text as it is; a cancelled
  prompt ends the cycle in both.\<close>

lemma confirming_empty_text:
  assumes "showInputBox h m = Some []"
  shows "confirming h wp g tr m = committing h wp g (tr @ [InputBox m]) ''chore: update''"
    and "confirming_legacy h wp g tr m = committing_legacy h wp g (tr @ [InputBox m]) []"
  using assms by (simp_all add: confirming_def confirming_legacy_def)

lemma confirming_canceled:
  assumes "showInputBox h m = None"
  shows "confirming h wp g tr m = (tr @ [InputBox m, ShowInfo ''Commit canceled.''], g)"
    and "confirming_legacy h wp g tr m
           = (tr @ [InputBox m, ShowInfo (books @ '' DevChronicle: Commit canceled.'')], g)"
  using assms by (simp_all add: confirming_def confirming_legacy_def)

lemma empty_confirmation_commits_default:
  "autoCommitAndPush (emptyTextHost oneFileRepo) ''/repo'' g0 =
     Some ([Exec git_status, Exec git_conflicts, Exec git_add, Exec git_names_cached,
            InputBox ''chore: update a.ts'', Exec (commitCommand ''chore: update''),
            Exec git_push, Exec git_diff_prev,
            ShowInfo ''Committed & pushed! Today: 1 commits, 1 files''],
           g0\<lparr>sessionCommits := 1, sessionFilesCommitted := 1\<rparr>)"
  by (simp add: run_defs scenario_defs)

text \<open>
  Claim C8. An empty confirmed text is to be replaced by a literal default message. The
  AI-enabled variant does so (\<open>confirming_empty_text\<close>, \<open>empty_confirmation_commits_default\<close>),
  and a cancelled prompt commits nothing in either variant (\<open>confirming_canceled\<close>). The
  earlier variant hands the empty text to git: the command line is \<^verbatim>\<open>git commit -m ""\<close>,
  which git refuses, and the cycle ends as a failed commit.
\<close>

theorem legacy_commits_empty_message:
  "autoCommitAndPush_legacy (emptyTextHost emptyMessageRepo) ''/repo'' g0 =
     ([Exec git_status, Exec git_conflicts, Exec git_names_cached, InputBox ''Update a.ts'',
       Exec git_add, Exec (''git commit -m '' @ [dquote, dquote]),
       ShowError (books @ '' DevChronicle: Commit failed - Error: Aborting commit due to empty commit message.'')],
      g0)"
  by (simp add: run_defs scenario_defs)

subsection \<open>Cancellation\<close>

text \<open>
  Claim C9. In the AI-enabled variant, when the probe passes, \<^verbatim>\<open>git add .\<close> succeeds, the
  generator returns a message and the user cancels the prompt, the cycle has run
  \<^verbatim>\<open>git add .\<close> before the prompt, everything after it leaves the index alone (the
  generator only lists the staged changes, and no commit and no unstaging follows), and
  the module state is as before.
\<close>

theorem cancel_leaves_changes_staged:
  assumes "exec h wp git_status = Inr s" and "trim s \<noteq> []"
    and "exec h wp git_conflicts = Inr c" and "trim c = []"
    and "exec h wp git_add = Inr a"
    and "generateCommitMessage h wp = Some (evs, m)"
    and "showInputBox h m = None"
  shows "autoCommitAndPush h wp g
           = Some ([Exec git_status, Exec git_conflicts, Exec git_add] @ evs
                   @ [InputBox m, ShowInfo ''Commit canceled.''], g)
         \<and> list_all readOnly (evs @ [InputBox m, ShowInfo ''Commit canceled.''])"
  using assms generateCommitMessage_readOnly [OF assms(6)]
  by (simp add: autoCommitAndPush_def staging_def confirming_def)

theorem cancel_leaves_changes_staged_witness:
  "exec (cancelHost oneFileRepo) ''/repo'' git_status = Inr ('' M a.ts'' @ [newline])
   \<and> trim ('' M a.ts'' @ [newline]) \<noteq> []
   \<and> exec (cancelHost oneFileRepo) ''/repo'' git_conflicts = Inr []
   \<and> trim [] = []
   \<and> exec (cancelHost oneFileRepo) ''/repo'' git_add = Inr []
   \<and> generateCommitMessage (cancelHost oneFileRepo) ''/repo''
       = Some ([Exec git_names_cached], ''chore: update a.ts'')
   \<and> showInputBox (cancelHost oneFileRepo) ''chore: update a.ts'' = None
   \<and> autoCommitAndPush (cancelHost oneFileRepo) ''/repo'' g0
       = Some ([Exec git_status, Exec git_conflicts, Exec git_add, Exec git_names_cached,
                InputBox ''chore: update a.ts'', ShowInfo ''Commit canceled.''], g0)"
proof -
  have s: "exec (cancelHost oneFileRepo) ''/repo'' git_status = Inr ('' M a.ts'' @ [newline])"
    by (simp add: scenario_defs)
  have sn: "trim ('' M a.ts'' @ [newline]) \<noteq> []"
    by (simp add: js_defs)
  have c: "exec (cancelHost oneFileRepo) ''/repo'' git_conflicts = Inr []"
    by (simp add: scenario_defs)
  have cn: "trim [] = []"
    by (simp add: trim_def)
  have a: "exec (cancelHost oneFileRepo) ''/repo'' git_add = Inr []"
    by (simp add: scenario_defs)
  have m: "generateCommitMessage (cancelHost oneFileRepo) ''/repo''
      = Some ([Exec git_names_cached], ''chore: update a.ts'')"
    by (simp add: fallback_defs js_defs scenario_defs)
  have u: "showInputBox (cancelHost oneFileRepo) ''chore: update a.ts'' = None"
    by (simp add: scenario_defs)
  from cancel_leaves_changes_staged [OF s sn c cn a m u, of g0] s sn c cn a m u show ?thesis
    by simp
qed

subsection \<open>The pending save marker\<close>

lemma switch_after_rejection:
  "handleFileSwitch (repoHost oneFileRepo) 0 ''/repo/b.ts'' savedState
     = Some (Cycle ''/repo''
               [Exec git_status, Exec git_conflicts, Exec git_add, Exec git_names_cached,
                InputBox ''chore: update a.ts'', Exec (commitCommand ''chore: update a.ts''),
                Exec git_push, Exec git_diff_prev,
                ShowInfo ''Committed & pushed! Today: 1 commits, 1 files''],
             g0\<lparr>sessionCommits := 1, sessionFilesCommitted := 1\<rparr>)"
  by (simp add: handleFileSwitch_def paused_def truthyNum_def isGitRepository_def run_defs
      scenario_defs)

text \<open>
  Claim C10. A rejected active-file change (no pending save, suppression window active,
  switch to the saved file, no workspace folder, no git repository; in the earlier variant
  also no editor) starts no cycle and leaves the module state, the marker with it, as it
  was. Whenever the handler returns with the marker changed, \<^verbatim>\<open>autoCommitAndPush\<close> was
  called and has returned, and the new state is its state with the marker cleared.
\<close>

theorem marker_cleared_only_after_cycle:
  "(rejected h now f g \<longrightarrow> handleFileSwitch h now f g = Some (NoCycle [], g)
                          \<and> handleFileSwitch_legacy h now (Some f) g = (NoCycle [], g))
   \<and> handleFileSwitch_legacy h now None g = (NoCycle [], g)
   \<and> (\<forall>out g'. handleFileSwitch h now f g = Some (out, g') \<and> lastSavedFile g' \<noteq> lastSavedFile g
         \<longrightarrow> (\<exists>wp tr g''. autoCommitAndPush h wp g = Some (tr, g'') \<and> out = Cycle wp tr
                           \<and> g' = g''\<lparr>lastSavedFile := None\<rparr>))
   \<and> (\<forall>out g'. handleFileSwitch_legacy h now editor g = (out, g') \<and> lastSavedFile g' \<noteq> lastSavedFile g
         \<longrightarrow> (\<exists>wp tr g''. autoCommitAndPush_legacy h wp g = (tr, g'') \<and> out = Cycle wp tr
                           \<and> g' = g''\<lparr>lastSavedFile := None\<rparr>))"
proof (intro conjI allI impI)
  assume "rejected h now f g"
  then show "handleFileSwitch h now f g = Some (NoCycle [], g)"
    by (auto simp: rejected_def handleFileSwitch_def split: option.splits)
next
  assume "rejected h now f g"
  then show "handleFileSwitch_legacy h now (Some f) g = (NoCycle [], g)"
    by (auto simp: rejected_def handleFileSwitch_legacy_def split: option.splits)
next
  show "handleFileSwitch_legacy h now None g = (NoCycle [], g)"
    by (simp add: handleFileSwitch_legacy_def)
next
  fix out g'
  assume "handleFileSwitch h now f g = Some (out, g') \<and> lastSavedFile g' \<noteq> lastSavedFile g"
  then show "\<exists>wp tr g''. autoCommitAndPush h wp g = Some (tr, g'') \<and> out = Cycle wp tr
                           \<and> g' = g''\<lparr>lastSavedFile := None\<rparr>"
    by (auto simp: handleFileSwitch_def split: option.splits if_splits)
next
  fix out g'
  assume "handleFileSwitch_legacy h now editor g = (out, g') \<and> lastSavedFile g' \<noteq> lastSavedFile g"
  then show "\<exists>wp tr g''. autoCommitAndPush_legacy h wp g = (tr, g'') \<and> out = Cycle wp tr
                           \<and> g' = g''\<lparr>lastSavedFile := None\<rparr>"
    by (auto simp: handleFileSwitch_legacy_def split: option.splits if_splits prod.splits)
qed

theorem marker_cleared_only_after_cycle_witness:
  "rejected (repoHost oneFileRepo) 0 ''/repo/a.ts'' savedState
   \<and> handleFileSwitch (repoHost oneFileRepo) 0 ''/repo/a.ts'' savedState
       = Some (NoCycle [], savedState)
   \<and> handleFileSwitch_legacy (repoHost oneFileRepo) 0 (Some ''/repo/a.ts'') savedState
       = (NoCycle [], savedState)
   \<and> map_option (lastSavedFile \<circ> snd)
        (handleFileSwitch (repoHost oneFileRepo) 0 ''/repo/b.ts'' savedState) = Some None"
proof -
  have r: "rejected (repoHost oneFileRepo) 0 ''/repo/a.ts'' savedState"
    by (simp add: rejected_def savedState_def g0_def)
  from marker_cleared_only_after_cycle [of "repoHost oneFileRepo" 0 "''/repo/a.ts''" savedState] r
  show ?thesis
    by (simp add: switch_after_rejection g0_def)
qed

end
